theory Spec2Isabelle
  imports Main "HOL-Library.Sublist"
begin

section \<open>Outcomes\<close>

text \<open>
  The script ends a run with \<open>sys.exit(2)\<close> on a fatal condition; an exception that no
  handler catches ends it with a traceback. Both are values here: a function that can
  raise returns \<open>exc + 'a\<close>, with \<open>Inl\<close> for the exception.
  \<open>ProgrammingError\<close> is the connector's exception of that name; \<open>DatabaseError\<close>
  stands for every other exception of the connector (they are all caught by
  \<open>except mysql.connector.Error\<close>, and only by it).
  \<open>Unmodelled_pattern\<close> stands for a call of \<open>re.findall\<close> with a pattern outside the
  fragment of the pattern language that \<open>re_parse\<close> below reads: Python either raises
  \<open>re.error\<close> or matches with constructs that are not modelled, so for this value the
  model does not say how the run goes on; it is never \<open>SystemExit\<close>.
\<close>

datatype exc =
    SystemExit int
  | IndexError
  | AttributeError
  | ProgrammingError
  | DatabaseError
  | Unmodelled_pattern

section \<open>Python strings: \<open>str.find\<close>, \<open>str.rfind\<close>, slicing, \<open>str\<close> of a number\<close>

text \<open>
  A Python \<open>str\<close> is modelled as a \<open>string\<close>, one \<open>char\<close> per character: the
  characters of the model are the code points below 256, and the character classes
  \<open>\d\<close>, \<open>\w\<close> and \<open>\s\<close> below are the classes that \<open>re\<close> uses for a \<open>str\<close> pattern,
  on these code points.
  \<open>str_find s sub\<close> is \<open>s.find(sub)\<close>: the lowest index at which \<open>sub\<close> starts in
  \<open>s\<close>, and \<open>-1\<close> when there is none.
\<close>

fun str_find :: "string \<Rightarrow> string \<Rightarrow> int" where
  "str_find [] sub = (if sub = [] then 0 else - 1)"
| "str_find (c # cs) sub =
     (if prefix sub (c # cs) then 0
      else (let r = str_find cs sub in if r < 0 then - 1 else r + 1))"


text \<open>
  \<open>slice_to s e\<close> is \<open>s[:e]\<close>: a negative bound counts from the end of the string and
  is clipped at \<open>0\<close>; a bound larger than the length is clipped by \<open>take\<close>.
\<close>

definition slice_to :: "string \<Rightarrow> int \<Rightarrow> string" where
  "slice_to s e = take (nat (if e < 0 then max 0 (int (length s) + e) else e)) s"


definition newline :: char where
  "newline = CHR 0x0A"

definition tab :: char where
  "tab = CHR 0x09"

text \<open>\<open>str_nat n\<close> is \<open>str(n)\<close> for a natural number: its decimal digits.\<close>

function str_nat :: "nat \<Rightarrow> string" where
  "str_nat n =
     (if n < 10 then [''0123456789'' ! n]
      else str_nat (n div 10) @ [''0123456789'' ! (n mod 10)])"
  by pat_completeness auto
termination
  by (relation "measure id") auto

declare str_nat.simps [simp del]

section \<open>Header slicing\<close>

definition doctype_marker :: string where
  "doctype_marker = ''<!DOCTYPE html''"

text \<open>\<open>get_header\<close> (src/main.py, lines 235-244); the logging call has no effect on the result.\<close>

definition get_header :: "string \<Rightarrow> string" where
  "get_header email_content =
     (let header_endpoint = str_find email_content doctype_marker;
          head = slice_to email_content header_endpoint
      in head)"

section \<open>Regular expressions: the matcher behind \<open>re.findall\<close>\<close>

text \<open>
  The patterns of the script are values of \<open>regex\<close>, the abstract syntax of the pattern
  language: \<open>Lit c\<close> a literal character, \<open>Dot\<close> the pattern \<open>.\<close> (any character but a
  newline), \<open>Set neg items\<close> a character set (\<open>[...]\<close>, or \<open>[^...]\<close> when \<open>neg\<close>; the
  escapes \<open>\d\<close>, \<open>\w\<close>, \<open>\s\<close> are one-item sets), \<open>Seq\<close> concatenation, \<open>Alt\<close> the
  alternation \<open>|\<close>, \<open>Rep lo hi r\<close> the greedy repetition \<open>r{lo,hi}\<close> (\<open>*\<close> is
  \<open>Rep 0 None\<close>, \<open>+\<close> is \<open>Rep 1 None\<close>, \<open>?\<close> is \<open>Rep 0 (Some 1)\<close>), \<open>Group\<close> a group
  in parentheses, \<open>NotBehind\<close> the negative lookbehind \<open>(?<!...)\<close>, \<open>NotAhead\<close> the
  negative lookahead \<open>(?!...)\<close>.
\<close>

datatype cclass = CDigit | CWord | CSpace | CChar char | CRange char char

datatype regex =
    Lit char
  | Dot
  | Set bool "cclass list"
  | Eps
  | Seq regex regex
  | Alt regex regex
  | Rep nat "nat option" regex
  | Group regex
  | NotBehind regex
  | NotAhead regex

text \<open>
  The classes of a \<open>str\<close> pattern follow the Unicode properties of the characters. Below
  code point 256 the decimal digits are \<open>0\<close> to \<open>9\<close>; the word characters are the ASCII
  letters and digits, the underscore, the letters of the upper half (\<open>U+00C0\<close> to
  \<open>U+00FF\<close> without the signs \<open>U+00D7\<close> and \<open>U+00F7\<close>, the ordinal indicators
  \<open>U+00AA\<close> and \<open>U+00BA\<close>, the micro sign \<open>U+00B5\<close>) and its numeric characters (the
  superscripts \<open>U+00B2\<close>, \<open>U+00B3\<close>, \<open>U+00B9\<close> and the fractions \<open>U+00BC\<close> to
  \<open>U+00BE\<close>); the whitespace characters are \<open>U+0009\<close> to \<open>U+000D\<close>, \<open>U+001C\<close> to
  \<open>U+0020\<close>, \<open>U+0085\<close> and \<open>U+00A0\<close>.
\<close>

definition is_digit :: "char \<Rightarrow> bool" where
  "is_digit c = (48 \<le> (of_char c :: nat) \<and> (of_char c :: nat) \<le> 57)"

definition is_word :: "char \<Rightarrow> bool" where
  "is_word c =
     (let n = (of_char c :: nat)
      in (48 \<le> n \<and> n \<le> 57) \<or> (65 \<le> n \<and> n \<le> 90) \<or> (97 \<le> n \<and> n \<le> 122) \<or> n = 95 \<or>
         n = 170 \<or> n = 178 \<or> n = 179 \<or> n = 181 \<or> n = 185 \<or> n = 186 \<or>
         (188 \<le> n \<and> n \<le> 190) \<or> (192 \<le> n \<and> n \<le> 214) \<or> (216 \<le> n \<and> n \<le> 246) \<or>
         (248 \<le> n \<and> n \<le> 255))"

definition is_space :: "char \<Rightarrow> bool" where
  "is_space c =
     (let n = (of_char c :: nat)
      in (9 \<le> n \<and> n \<le> 13) \<or> (28 \<le> n \<and> n \<le> 32) \<or> n = 133 \<or> n = 160)"

fun in_class :: "cclass \<Rightarrow> char \<Rightarrow> bool" where
  "in_class CDigit c = is_digit c"
| "in_class CWord c = is_word c"
| "in_class CSpace c = is_space c"
| "in_class (CChar x) c = (c = x)"
| "in_class (CRange lo hi) c =
     ((of_char lo :: nat) \<le> of_char c \<and> (of_char c :: nat) \<le> of_char hi)"

fun dec :: "nat option \<Rightarrow> nat option" where
  "dec None = None"
| "dec (Some n) = Some (n - 1)"

text \<open>
  A matcher is run at a position of the text: \<open>bf\<close> holds the characters before the
  position, the nearest first, and \<open>rs\<close> the characters from the position on. It returns
  the numbers of characters that the pattern can consume there, in the order in which the
  backtracking matcher of \<open>re\<close> tries them (a greedy repetition tries one more round
  before it tries to stop; an alternation tries its left branch first), so the head of the
  list is the match that \<open>re\<close> reports.

  \<open>rep m lo hi\<close> repeats the matcher \<open>m\<close> at least \<open>lo\<close> and at most \<open>hi\<close> times.
  A round that consumes nothing counts towards \<open>lo\<close>; once \<open>lo\<close> is reached it ends the
  repetition, as the matcher's guard against empty loops does.
\<close>

function rep ::
  "(string \<Rightarrow> string \<Rightarrow> nat list) \<Rightarrow> nat \<Rightarrow> nat option \<Rightarrow> string \<Rightarrow> string \<Rightarrow> nat list"
where
  "rep m lo hi bf rs =
     (if hi = Some 0 then []
      else concat (map (\<lambda>k.
             if 0 < k \<and> k \<le> length rs
             then map (\<lambda>j. k + j) (rep m (lo - 1) (dec hi) (rev (take k rs) @ bf) (drop k rs))
             else if k = 0 \<and> 0 < lo then rep m (lo - 1) (dec hi) bf rs
             else if k = 0 then [0]
             else []) (m bf rs)))
     @ (if lo = 0 then [0] else [])"
  by pat_completeness auto
termination
  by (relation "measure (\<lambda>(m, lo, hi, bf, rs). lo + length rs)") auto

declare rep.simps [simp del]

text \<open>
  \<open>width r\<close> is the fixed number of characters that \<open>r\<close> consumes, when it has one:
  \<open>re\<close> accepts a lookbehind only for such a pattern, and tests it by stepping back that
  many characters.
\<close>

fun width :: "regex \<Rightarrow> nat option" where
  "width (Lit c) = Some 1"
| "width Dot = Some 1"
| "width (Set neg items) = Some 1"
| "width Eps = Some 0"
| "width (Seq a b) =
     (case (width a, width b) of (Some x, Some y) \<Rightarrow> Some (x + y) | _ \<Rightarrow> None)"
| "width (Alt a b) =
     (case (width a, width b) of
        (Some x, Some y) \<Rightarrow> if x = y then Some x else None
      | _ \<Rightarrow> None)"
| "width (Rep lo hi r) =
     (case (width r, hi) of
        (Some x, Some h) \<Rightarrow> if lo = h then Some (lo * x) else None
      | _ \<Rightarrow> None)"
| "width (Group r) = width r"
| "width (NotBehind r) = Some 0"
| "width (NotAhead r) = Some 0"

fun run :: "regex \<Rightarrow> string \<Rightarrow> string \<Rightarrow> nat list" where
  "run (Lit c) bf rs = (case rs of [] \<Rightarrow> [] | x # _ \<Rightarrow> if x = c then [1] else [])"
| "run Dot bf rs = (case rs of [] \<Rightarrow> [] | x # _ \<Rightarrow> if x \<noteq> newline then [1] else [])"
| "run (Set neg items) bf rs =
     (case rs of
        [] \<Rightarrow> []
      | x # _ \<Rightarrow> if list_ex (\<lambda>i. in_class i x) items \<noteq> neg then [1] else [])"
| "run Eps bf rs = [0]"
| "run (Seq a b) bf rs =
     concat (map (\<lambda>k. map (\<lambda>j. k + j) (run b (rev (take k rs) @ bf) (drop k rs)))
       (run a bf rs))"
| "run (Alt a b) bf rs = run a bf rs @ run b bf rs"
| "run (Rep lo hi r) bf rs = rep (run r) lo hi bf rs"
| "run (Group r) bf rs = run r bf rs"
| "run (NotBehind r) bf rs =
     (case width r of
        None \<Rightarrow> []
      | Some w \<Rightarrow>
          if w \<le> length bf \<and> run r (drop w bf) (rev (take w bf) @ rs) \<noteq> [] then []
          else [0])"
| "run (NotAhead r) bf rs = (if run r bf rs = [] then [0] else [])"

text \<open>
  \<open>scan\<close> is the loop of \<open>re.findall\<close>: at each position it takes the first match of the
  pattern, records the matched text and goes on behind the match; where there is no
  match it moves one character on. After an empty match the search is repeated at the
  same position with \<open>adv\<close> set, which refuses another empty match there (so with
  \<open>adv\<close> set the match found is never empty). The matched
  text is the whole match: that is what \<open>re.findall\<close> returns for a pattern without a
  group, and for a pattern whose only group is all of the pattern but zero-width
  assertions, as in the three patterns of \<open>parse_mail\<close>.
\<close>

function scan :: "regex \<Rightarrow> bool \<Rightarrow> string \<Rightarrow> string \<Rightarrow> string list" where
  "scan r adv bf rs =
     (case find (\<lambda>k. k \<le> length rs \<and> (adv \<longrightarrow> 0 < k)) (run r bf rs) of
        Some k \<Rightarrow> take k rs #
          (if k = 0 then (if adv then [] else scan r True bf rs)
           else scan r False (rev (take k rs) @ bf) (drop k rs))
      | None \<Rightarrow> (case rs of [] \<Rightarrow> [] | c # cs \<Rightarrow> scan r False (c # bf) cs))"
  by pat_completeness auto
termination
  by (relation "measure (\<lambda>(r, adv, bf, rs). 2 * length rs + (if adv then 0 else 1))")
    (auto simp: find_Some_iff)

declare scan.simps [simp del]

definition findall :: "regex \<Rightarrow> string \<Rightarrow> string list" where
  "findall r s = scan r False [] s"

subsection \<open>Reading a pattern given as text\<close>

text \<open>
  The header search builds its pattern from text that the user supplies, and the domain
  pattern contains the text of the TLD configuration. \<open>re_parse\<close> reads the fragment of
  the pattern language made of literal characters, \<open>.\<close>, the escapes \<open>\d \w \s \D \W \S\<close>
  and escaped punctuation, the postfix operators \<open>* + ?\<close> and the alternation \<open>|\<close>. It
  returns \<open>None\<close> for any other pattern: one with parentheses, brackets, braces or
  anchors, a lazy or doubled operator, an operator with nothing to repeat, any other
  escape.
\<close>

definition digit :: regex where
  "digit = Set False [CDigit]"

definition word :: regex where
  "word = Set False [CWord]"

definition backslash :: char where
  "backslash = CHR 0x5C"

definition escape :: "char \<Rightarrow> regex option" where
  "escape e =
     (if e = CHR ''d'' then Some (Set False [CDigit])
      else if e = CHR ''w'' then Some (Set False [CWord])
      else if e = CHR ''s'' then Some (Set False [CSpace])
      else if e = CHR ''D'' then Some (Set True [CDigit])
      else if e = CHR ''W'' then Some (Set True [CWord])
      else if e = CHR ''S'' then Some (Set True [CSpace])
      else if 128 \<le> (of_char e :: nat) then None
      else if is_word e \<and> e \<noteq> CHR ''_'' then None
      else Some (Lit e))"

definition quantifier :: "char \<Rightarrow> regex \<Rightarrow> regex" where
  "quantifier q a =
     (if q = CHR ''*'' then Rep 0 None a
      else if q = CHR ''+'' then Rep 1 None a
      else Rep 0 (Some 1) a)"

text \<open>
  \<open>parse_alts p s\<close> reads \<open>s\<close> into its alternatives, each a list of atoms; \<open>p\<close> is the
  atom read last, which the next character may still turn into a repetition.
\<close>

definition emit :: "regex option \<Rightarrow> regex list list \<Rightarrow> regex list list" where
  "emit p alts =
     (case p of
        None \<Rightarrow> alts
      | Some a \<Rightarrow> (case alts of [] \<Rightarrow> [[a]] | cur # rest \<Rightarrow> (a # cur) # rest))"

fun parse_alts :: "regex option \<Rightarrow> string \<Rightarrow> regex list list option" where
  "parse_alts p [] = Some (emit p [[]])"
| "parse_alts p (c # cs) =
     (if c \<in> set ''*+?'' then
        (case p of
           None \<Rightarrow> None
         | Some a \<Rightarrow> map_option (emit (Some (quantifier c a))) (parse_alts None cs))
      else if c = CHR ''|'' then
        map_option (\<lambda>alts. emit p [[]] @ alts) (parse_alts None cs)
      else if c = backslash then
        (case cs of
           [] \<Rightarrow> None
         | e # cs' \<Rightarrow>
             (case escape e of
                None \<Rightarrow> None
              | Some a \<Rightarrow> map_option (emit p) (parse_alts (Some a) cs')))
      else if c \<in> set ''()[{^$'' then None
      else map_option (emit p) (parse_alts (Some (if c = CHR ''.'' then Dot else Lit c)) cs))"

definition seq_of :: "regex list \<Rightarrow> regex" where
  "seq_of atoms = foldr Seq atoms Eps"

fun alt_of :: "regex list \<Rightarrow> regex" where
  "alt_of [] = Eps"
| "alt_of [a] = a"
| "alt_of (a # b # bs) = Alt a (alt_of (b # bs))"

definition re_parse :: "string \<Rightarrow> regex option" where
  "re_parse s = map_option (\<lambda>alts. alt_of (map seq_of alts)) (parse_alts None s)"

text \<open>\<open>re_findall pattern s\<close> is \<open>re.findall(pattern, s)\<close> for a pattern given as text.\<close>

definition re_findall :: "string \<Rightarrow> string \<Rightarrow> exc + string list" where
  "re_findall pattern s =
     (case re_parse pattern of
        None \<Rightarrow> Inl Unmodelled_pattern
      | Some r \<Rightarrow> Inr (findall r s))"

subsection \<open>The patterns of \<open>parse_mail\<close>\<close>

text \<open>
  \<^verbatim>\<open>(?<!\w|\.)(\d{1,3}(?:\.\d{1,3}){3})(?!\.?\w)\<close>: the lookbehind
  \<open>not_after_word_or_dot\<close>, the group with \<open>quad_body\<close>, the lookahead
  \<open>not_before_word\<close>.
\<close>

definition not_after_word_or_dot :: regex where
  "not_after_word_or_dot = NotBehind (Alt word (Lit CHR ''.''))"

definition not_before_word :: regex where
  "not_before_word = NotAhead (Seq (Rep 0 (Some 1) (Lit CHR ''.'')) word)"

definition quad_body :: regex where
  "quad_body =
     Seq (Rep 1 (Some 3) digit) (Rep 3 (Some 3) (Seq (Lit CHR ''.'') (Rep 1 (Some 3) digit)))"

definition ip_v4_re :: regex where
  "ip_v4_re = Seq not_after_word_or_dot (Seq (Group quad_body) not_before_word)"




section \<open>Header search\<close>

text \<open>
  \<open>header_search\<close> (src/main.py, lines 247-272). The content is a \<open>string\<close> by its type, so
  the \<open>isinstance\<close> test passes.
\<close>

definition header_search :: "string \<Rightarrow> string \<Rightarrow> string \<Rightarrow> exc + string list" where
  "header_search email_content substring pattern =
     (let head = get_header email_content
      in if pattern = [] \<and> substring \<noteq> [] then re_findall (''.*'' @ substring @ ''.*'') head
         else if pattern \<noteq> [] \<and> substring = [] then re_findall pattern head
         else Inl (SystemExit 2))"

section \<open>The database and the files around the script\<close>

text \<open>
  The MySQL server, the files and the console are outside the script. They are kept in
  one record that every stateful function takes and returns.

  A connection is named by the database it is opened to: host, port and schema name.
  \<open>server\<close> says how the server answers a call of \<open>mysql.connector.connect\<close>:
  \<open>Refused\<close> when the call raises \<open>mysql.connector.Error\<close>, and \<open>Opened b\<close> when it
  returns a connection whose \<open>is_connected()\<close> is \<open>b\<close>. \<open>tables\<close> holds, for each
  database, the rows of each table that exists (the value column only: the \<open>id\<close> column is
  never read). \<open>ddl_fault\<close> says for which \<open>DROP TABLE\<close> and \<open>CREATE TABLE\<close> statements
  the server answers with an error of its own: \<open>Denied\<close> when the user may not execute
  the statement (which the connector raises as \<open>ProgrammingError\<close>, as it does for every
  error of the SQL state class 42), \<open>Broken\<close> for any other error (a lost connection, a
  full disk), raised as another exception of the connector. The statements on rows and
  the making of a cursor are taken to succeed; a connection that is lost right after it
  was opened is a \<open>Broken\<close> fault of the statements that follow, which ends
  \<open>recreate_tables\<close> in the same way. \<open>calls\<close> records every call made to the
  connector, the latest last.
  \<open>cls_instance\<close> is the class attribute \<open>DbConnection._instance\<close>: the one object of the
  class with its attributes, \<open>None\<close> in an attribute before its first assignment.
\<close>

type_synonym connection = "string \<times> int \<times> string"

datatype reply = Refused | Opened bool

datatype fault = Denied | Broken

definition fault_exc :: "fault \<Rightarrow> exc" where
  "fault_exc f = (case f of Denied \<Rightarrow> ProgrammingError | Broken \<Rightarrow> DatabaseError)"

text \<open>
  The statements that the script executes:
  \<open>DropTable t\<close> is \<^verbatim>\<open>DROP TABLE t\<close>,
  \<open>CreateTable t\<close> is \<^verbatim>\<open>CREATE TABLE t (id INT PRIMARY KEY AUTO_INCREMENT UNIQUE, c VARCHAR(255) NOT NULL)\<close>,
  \<open>InsertValue t v\<close> is \<^verbatim>\<open>INSERT INTO t(c) VALUES ("v")\<close>,
  \<open>SelectGrouped t\<close> is \<^verbatim>\<open>SELECT c, COUNT(c) FROM t GROUP BY c ORDER BY COUNT(c) DESC\<close>,
  where \<open>c\<close> is the value column of the table (\<open>ip\<close> for \<open>ips\<close>, \<open>domain\<close> for \<open>domains\<close>).
\<close>

datatype stmt =
    DropTable string
  | CreateTable string
  | InsertValue string string
  | SelectGrouped string

datatype db_call =
    Connect string string string string int
  | Execute connection stmt
  | Commit connection

record DbConnection =
  host :: "string option"
  port :: "int option"
  user :: "string option"
  password :: "string option"
  data_base :: "string option"
  conn :: "connection option"

record db_conf =
  conf_host :: string
  conf_db :: string
  conf_user :: string
  conf_password :: string
  conf_port :: int

record world =
  cls_instance :: "DbConnection option"
  server :: "string \<Rightarrow> string \<Rightarrow> string \<Rightarrow> string \<Rightarrow> int \<Rightarrow> reply"
  tables :: "connection \<Rightarrow> string \<Rightarrow> string list option"
  ddl_fault :: "connection \<Rightarrow> stmt \<Rightarrow> fault option"
  calls :: "db_call list"
  db_conf_file :: "db_conf option"
  tld_conf_file :: "string option"
  files :: "string \<Rightarrow> string option"
  stdout :: "string list"

subsection \<open>The grouped query\<close>

text \<open>
  The meaning of \<^verbatim>\<open>SELECT c, COUNT(c) FROM t GROUP BY c ORDER BY COUNT(c) DESC\<close> over the
  values of column \<open>c\<close>: one row for each distinct value, with the number of its
  occurrences, the rows in descending order of that number. SQL leaves the order of rows
  with equal counts open; here they come in the order of their first occurrence.
  Values are compared character by character.
\<close>

fun uniq :: "'a list \<Rightarrow> 'a list" where
  "uniq [] = []"
| "uniq (x # xs) = x # uniq (removeAll x xs)"

definition query_grouped :: "string list \<Rightarrow> (string \<times> nat) list" where
  "query_grouped vals =
     rev (sort_key snd (rev (map (\<lambda>v. (v, count_list vals v)) (uniq vals))))"

subsection \<open>Executing a statement\<close>

text \<open>
  \<open>execute w c s\<close> is \<open>cursor.execute\<close> on a cursor of connection \<open>c\<close>, followed for the
  query by \<open>cursor.fetchall()\<close>. A statement on a table that does not exist, and the
  creation of a table that exists, raise \<open>ProgrammingError\<close>; a \<open>DROP TABLE\<close> or
  \<open>CREATE TABLE\<close> with a fault raises the exception of the fault and changes nothing.
\<close>

definition set_table :: "connection \<Rightarrow> string \<Rightarrow> string list option \<Rightarrow> world \<Rightarrow> world" where
  "set_table c t rows w = w\<lparr>tables := (tables w)(c := (tables w c)(t := rows))\<rparr>"

definition execute :: "world \<Rightarrow> connection \<Rightarrow> stmt \<Rightarrow> world \<times> (exc + (string \<times> nat) list)" where
  "execute w c s =
     (let w' = w\<lparr>calls := calls w @ [Execute c s]\<rparr>
      in case s of
           DropTable t \<Rightarrow>
             (case ddl_fault w c s of
                Some f \<Rightarrow> (w', Inl (fault_exc f))
              | None \<Rightarrow>
                  (case tables w c t of
                     None \<Rightarrow> (w', Inl ProgrammingError)
                   | Some rows \<Rightarrow> (set_table c t None w', Inr [])))
         | CreateTable t \<Rightarrow>
             (case ddl_fault w c s of
                Some f \<Rightarrow> (w', Inl (fault_exc f))
              | None \<Rightarrow>
                  (case tables w c t of
                     None \<Rightarrow> (set_table c t (Some []) w', Inr [])
                   | Some rows \<Rightarrow> (w', Inl ProgrammingError)))
         | InsertValue t v \<Rightarrow>
             (case tables w c t of
                None \<Rightarrow> (w', Inl ProgrammingError)
              | Some rows \<Rightarrow> (set_table c t (Some (rows @ [v])) w', Inr []))
         | SelectGrouped t \<Rightarrow>
             (case tables w c t of
                None \<Rightarrow> (w', Inl ProgrammingError)
              | Some rows \<Rightarrow> (w', Inr (query_grouped rows))))"

section \<open>The class \<open>DbConnection\<close>\<close>

definition update_self :: "(DbConnection \<Rightarrow> DbConnection) \<Rightarrow> world \<Rightarrow> world" where
  "update_self f w = w\<lparr>cls_instance := map_option f (cls_instance w)\<rparr>"

text \<open>
  \<open>recreate_tables\<close> (src/main.py, lines 77-101). Each \<open>try\<close> drops a table and passes
  over \<open>ProgrammingError\<close>; its \<open>finally\<close> creates the table whatever the \<open>try\<close> did, and
  an exception of the \<open>finally\<close>, or one that the \<open>except\<close> did not catch, goes on to the
  caller.
\<close>

definition drop_and_create :: "world \<Rightarrow> connection \<Rightarrow> string \<Rightarrow> world \<times> (exc + unit)" where
  "drop_and_create w c t =
     (case execute w c (DropTable t) of
        (w1, dropped) \<Rightarrow>
          (case execute w1 c (CreateTable t) of
             (w2, Inl e) \<Rightarrow> (w2, Inl e)
           | (w2, Inr _) \<Rightarrow>
               (case dropped of
                  Inl e \<Rightarrow> if e = ProgrammingError then (w2, Inr ()) else (w2, Inl e)
                | Inr _ \<Rightarrow> (w2, Inr ()))))"

definition recreate_tables :: "world \<Rightarrow> connection \<Rightarrow> world \<times> (exc + unit)" where
  "recreate_tables w c =
     (case drop_and_create w c ''ips'' of
        (w1, Inl e) \<Rightarrow> (w1, Inl e)
      | (w1, Inr _) \<Rightarrow> drop_and_create w1 c ''domains'')"

text \<open>
  \<open>__new__\<close> (lines 30-35) makes an object only when the class has none yet.
\<close>

definition fresh_object :: DbConnection where
  "fresh_object =
     \<lparr>host = None, port = None, user = None, password = None, data_base = None, conn = None\<rparr>"

definition DbConnection_new :: "world \<Rightarrow> world" where
  "DbConnection_new w =
     (case cls_instance w of
        None \<Rightarrow> w\<lparr>cls_instance := Some fresh_object\<rparr>
      | Some obj \<Rightarrow> w)"

text \<open>
  \<open>__init__\<close> (lines 37-75), on the object in \<open>cls_instance\<close>. \<open>ProgrammingError\<close> and
  \<open>DatabaseError\<close> are the exceptions of the connector in this model, and
  \<open>except mysql.connector.Error\<close> catches them; the other exceptions are not the
  connector's.
\<close>

definition is_connector_error :: "exc \<Rightarrow> bool" where
  "is_connector_error e = (e = ProgrammingError \<or> e = DatabaseError)"

definition DbConnection_init ::
  "world \<Rightarrow> string \<Rightarrow> int \<Rightarrow> string \<Rightarrow> string \<Rightarrow> string \<Rightarrow> world \<times> (exc + unit)"
where
  "DbConnection_init w h p u pw dbn =
     (let w1 = update_self (\<lambda>self. self\<lparr>host := Some h, port := Some p, user := Some u\<rparr>) w
      in if pw = [] then (w1, Inl (SystemExit 2))
         else
           (let w2 = update_self (\<lambda>self. self\<lparr>password := Some pw\<rparr>) w1
            in if dbn = [] then (w2, Inl (SystemExit 2))
               else
                 (let w3 = update_self (\<lambda>self. self\<lparr>data_base := Some dbn\<rparr>) w2;
                      w4 = w3\<lparr>calls := calls w3 @ [Connect h dbn u pw p]\<rparr>
                  in case server w4 h dbn u pw p of
                       Refused \<Rightarrow> (update_self (\<lambda>self. self\<lparr>conn := None\<rparr>) w4, Inr ())
                     | Opened connected \<Rightarrow>
                         (let w5 = update_self (\<lambda>self. self\<lparr>conn := Some (h, p, dbn)\<rparr>) w4
                          in if connected then
                               (case recreate_tables w5 (h, p, dbn) of
                                  (w6, Inl e) \<Rightarrow>
                                    if is_connector_error e
                                    then (update_self (\<lambda>self. self\<lparr>conn := None\<rparr>) w6, Inr ())
                                    else (w6, Inl e)
                                | (w6, Inr _) \<Rightarrow> (w6, Inr ()))
                             else (update_self (\<lambda>self. self\<lparr>conn := None\<rparr>) w5, Inr ())))))"

text \<open>
  \<open>DbConnection(...)\<close>: Python calls \<open>__new__\<close> and then, as the object it returns is
  an instance of the class, \<open>__init__\<close> on that object. The object returned is the one
  in \<open>cls_instance\<close>.
\<close>

definition DbConnection_call ::
  "world \<Rightarrow> string \<Rightarrow> int \<Rightarrow> string \<Rightarrow> string \<Rightarrow> string \<Rightarrow> world \<times> (exc + unit)"
where
  "DbConnection_call w h p u pw dbn = DbConnection_init (DbConnection_new w) h p u pw dbn"


section \<open>Reading the mail and the TLD configuration\<close>



section \<open>Extraction and storage\<close>



section \<open>The report\<close>

definition print :: "string \<Rightarrow> world \<Rightarrow> world" where
  "print line w = w\<lparr>stdout := stdout w @ [line]\<rparr>"

definition print_all :: "string list \<Rightarrow> world \<Rightarrow> world" where
  "print_all lines w = w\<lparr>stdout := stdout w @ lines\<rparr>"

text \<open>\<open>print(row[0], "\t", row[1])\<close> writes its arguments with a blank between them.\<close>

definition row_line :: "string \<times> nat \<Rightarrow> string" where
  "row_line row = fst row @ '' '' @ [tab] @ '' '' @ str_nat (snd row)"

text \<open>
  The \<open>try\<close> of the IPs (lines 212-220): \<open>rows[0]\<close> raises \<open>IndexError\<close> on an empty
  list, which the handler catches. The result is what is printed.
\<close>

definition ips_section :: "(string \<times> nat) list \<Rightarrow> string list" where
  "ips_section rows =
     (case rows of
        [] \<Rightarrow> [''No ips in database'']
      | first # _ \<Rightarrow>
          if snd first \<noteq> 1 then map row_line rows
          else map fst rows)"

text \<open>
  The \<open>try\<close> of the domains (lines 227-232): the handler is for \<open>KeyError\<close>, so the
  \<open>IndexError\<close> of \<open>rows[0]\<close> leaves the function. The result is what is printed and
  how the block ends.
\<close>

definition domains_section :: "(string \<times> nat) list \<Rightarrow> string list \<times> (exc + unit)" where
  "domains_section rows =
     (case rows of
        [] \<Rightarrow> ([], Inl IndexError)
      | first # _ \<Rightarrow>
          if snd first \<noteq> 1 then (map row_line rows, Inr ())
          else ([], Inr ()))"

text \<open>\<open>get_ips_and_domains\<close> (lines 202-232).\<close>

definition get_ips_and_domains :: "world \<Rightarrow> DbConnection \<Rightarrow> world \<times> (exc + unit)" where
  "get_ips_and_domains w db_conn =
     (case conn db_conn of
        None \<Rightarrow> (w, Inl AttributeError)
      | Some c \<Rightarrow>
          (case execute w c (SelectGrouped ''ips'') of
             (w1, Inl e) \<Rightarrow> (w1, Inl e)
           | (w1, Inr rows) \<Rightarrow>
               (let w2 = print_all (ips_section rows) (print (newline # ''IPs:'') w1)
                in case execute w2 c (SelectGrouped ''domains'') of
                     (w3, Inl e) \<Rightarrow> (w3, Inl e)
                   | (w3, Inr rows) \<Rightarrow>
                       (let w4 = print (newline # ''Domains:'') w3
                        in case domains_section rows of
                             (lines, outcome) \<Rightarrow> (print_all lines w4, outcome)))))"

section \<open>The command line\<close>

text \<open>
  The arguments as \<open>argparse\<close> delivers them: an option that is not given is \<open>None\<close>.
  The logging level only changes what goes to the log file, which is not modelled.
  \<open>cli\<close> is what \<open>parser.parse_args()\<close> does with the command line: it ends the
  process with status 2 for a command line that it rejects (the required \<open>-e\<close> is
  missing, an option is unknown or has no value), it prints the help and ends the
  process with status 0 for \<open>-h\<close>, and otherwise it returns the arguments.
\<close>

record args =
  logging_level :: string
  pattern :: "string option"
  substring :: "string option"
  mail_path :: string






text \<open>
  The exit status of the process: \<open>0\<close> when the script runs to its end, the argument of
  \<open>sys.exit\<close>, and \<open>1\<close> for an exception that nothing catches. For
  \<open>Unmodelled_pattern\<close> the status is that of a run that the model does not follow to
  its end: it is 0 or 1 in the script, and never 2.
\<close>

definition exit_code :: "exc + unit \<Rightarrow> int" where
  "exit_code outcome =
     (case outcome of
        Inr _ \<Rightarrow> 0
      | Inl (SystemExit n) \<Rightarrow> n
      | Inl _ \<Rightarrow> 1)"

section \<open>What the claims speak of\<close>



text \<open>
  A dotted quad is four groups of one to three digits with a dot between them.
  \<open>split_dots\<close> cuts a text at its dots.
\<close>

fun split_dots :: "string \<Rightarrow> string list" where
  "split_dots [] = [[]]"
| "split_dots (c # cs) =
     (if c = CHR ''.'' then [] # split_dots cs
      else (case split_dots cs of [] \<Rightarrow> [[c]] | g # gs \<Rightarrow> (c # g) # gs))"

text \<open>\<open>join_dots\<close> puts a dot before each of the groups and joins them.\<close>

definition join_dots :: "string list \<Rightarrow> string" where
  "join_dots gs = concat (map ((#) CHR ''.'') gs)"

definition digit_group :: "string \<Rightarrow> bool" where
  "digit_group g = (g \<noteq> [] \<and> length g \<le> 3 \<and> list_all is_digit g)"

definition is_quad :: "string \<Rightarrow> bool" where
  "is_quad tok = (length (split_dots tok) = 4 \<and> list_all digit_group (split_dots tok))"

text \<open>
  A token stands free at a position when the character before it, if there is one, is
  neither a word character nor a dot, and what follows it begins neither with a word
  character nor with a dot and a word character. \<open>bf\<close> holds the characters before the
  position, the nearest first, and \<open>rs\<close> the text from the position on.
\<close>

definition boundary_before :: "string \<Rightarrow> bool" where
  "boundary_before bf = (case bf of [] \<Rightarrow> True | c # _ \<Rightarrow> \<not> is_word c \<and> c \<noteq> CHR ''.'')"

definition boundary_after :: "string \<Rightarrow> bool" where
  "boundary_after rs =
     (case rs of
        [] \<Rightarrow> True
      | c # cs \<Rightarrow>
          \<not> is_word c \<and>
          \<not> (c = CHR ''.'' \<and> (case cs of [] \<Rightarrow> False | d # _ \<Rightarrow> is_word d)))"

definition quad_here :: "string \<Rightarrow> string \<Rightarrow> nat \<Rightarrow> bool" where
  "quad_here bf rs n =
     (n \<le> length rs \<and> is_quad (take n rs) \<and> boundary_before bf \<and> boundary_after (drop n rs))"

text \<open>
  The occurrences of free-standing dotted quads in a document: every position of the
  document from left to right, and at each position every length \<open>n\<close> for which the next
  \<open>n\<close> characters are a dotted quad that stands free there.
\<close>

fun tokens_from :: "string \<Rightarrow> string \<Rightarrow> string list" where
  "tokens_from bf [] = []"
| "tokens_from bf (c # cs) =
     map (\<lambda>n. take n (c # cs)) (filter (quad_here bf (c # cs)) [0..<Suc (length (c # cs))])
     @ tokens_from (c # bf) cs"

definition occurrences :: "string \<Rightarrow> string list" where
  "occurrences doc = tokens_from [] doc"

section \<open>Example inputs\<close>

text \<open>
  A world in which the server opens every connection and no table exists yet, the
  configuration file names the schema \<open>mail\<close>, there is no TLD configuration, and one
  mail file is present.
\<close>

definition example_mail :: string where
  "example_mail = ''1.2.3.4 a.org''"

definition example_conf :: db_conf where
  "example_conf =
     \<lparr>conf_host = ''db1'', conf_db = ''mail'', conf_user = ''root'', conf_password = ''pw1'',
      conf_port = 3306\<rparr>"

definition example_world :: world where
  "example_world =
     \<lparr>cls_instance = None,
      server = (\<lambda>h dbn u pw p. Opened True),
      tables = (\<lambda>c t. None),
      ddl_fault = (\<lambda>c s. None),
      calls = [],
      db_conf_file = Some example_conf,
      tld_conf_file = None,
      files = (\<lambda>path. if path = ''m.eml'' then Some example_mail else None),
      stdout = []\<rparr>"




text \<open>The first database of the examples, and a second one.\<close>

definition conn1 :: connection where
  "conn1 = (''db1'', 3306, ''mail'')"

definition conn2 :: connection where
  "conn2 = (''db2'', 3307, ''other'')"

text \<open>
  The world after a first construction \<open>DbConnection('db1', 3306, 'root', 'pw1', 'mail')\<close>
  and one insertion into its table \<open>ips\<close>.
\<close>

definition world_after_first :: world where
  "world_after_first =
     fst (execute (fst (DbConnection_call example_world ''db1'' 3306 ''root'' ''pw1'' ''mail''))
            conn1 (InsertValue ''ips'' ''1.1.1.1''))"

text \<open>The same world after one insertion into the table \<open>domains\<close> as well.\<close>

definition world_with_domain :: world where
  "world_with_domain = fst (execute world_after_first conn1 (InsertValue ''domains'' ''a.com''))"

text \<open>The object that the first construction leaves in the class.\<close>

definition first_object :: DbConnection where
  "first_object =
     \<lparr>host = Some ''db1'', port = Some 3306, user = Some ''root'', password = Some ''pw1'',
      data_base = Some ''mail'', conn = Some conn1\<rparr>"


section \<open>Properties of string search\<close>

lemma str_find_ge: "- 1 \<le> str_find s sub"
  by (induction s) (auto simp: Let_def)

lemma str_find_absent:
  "str_find s sub = - 1 \<longleftrightarrow> (\<nexists>pre post. s = pre @ sub @ post)"
proof (induction s)
  case Nil
  then show ?case by auto
next
  case (Cons c cs)
  show ?case
  proof (cases "prefix sub (c # cs)")
    case True
    then obtain post where "c # cs = sub @ post" by (auto simp: prefix_def)
    then have "c # cs = [] @ sub @ post" by simp
    with True show ?thesis by (metis str_find.simps(2) zero_neq_neg_one)
  next
    case False
    have "(\<exists>pre post. c # cs = pre @ sub @ post) \<longleftrightarrow> (\<exists>pre post. cs = pre @ sub @ post)"
    proof
      assume "\<exists>pre post. c # cs = pre @ sub @ post"
      then obtain pre post where e: "c # cs = pre @ sub @ post" by blast
      show "\<exists>pre post. cs = pre @ sub @ post"
      proof (cases pre)
        case Nil
        with e have "prefix sub (c # cs)" by (simp add: prefix_def)
        with False show ?thesis by simp
      next
        case (Cons a pre')
        with e have "cs = pre' @ sub @ post" by simp
        then show ?thesis by blast
      qed
    next
      assume "\<exists>pre post. cs = pre @ sub @ post"
      then obtain pre post where "cs = pre @ sub @ post" by blast
      then have "c # cs = (c # pre) @ sub @ post" by simp
      then show "\<exists>pre post. c # cs = pre @ sub @ post" by blast
    qed
    with False Cons show ?thesis
      using str_find_ge [of cs sub] by (auto simp: Let_def)
  qed
qed

lemma str_find_first:
  "0 \<le> str_find s sub \<Longrightarrow>
     (\<exists>post. s = take (nat (str_find s sub)) s @ sub @ post) \<and>
     (\<forall>pre' post'. s = pre' @ sub @ post' \<longrightarrow> nat (str_find s sub) \<le> length pre')"
proof (induction s)
  case Nil
  then show ?case by (auto split: if_splits)
next
  case (Cons c cs)
  show ?case
  proof (cases "prefix sub (c # cs)")
    case True
    then have z: "str_find (c # cs) sub = 0" by simp
    from True obtain post where "c # cs = sub @ post" by (auto simp: prefix_def)
    then show ?thesis unfolding z by simp
  next
    case False
    with Cons.prems have nn: "0 \<le> str_find cs sub"
      by (auto simp: Let_def split: if_splits)
    with False have eq: "str_find (c # cs) sub = str_find cs sub + 1"
      by (simp add: Let_def)
    from Cons.IH [OF nn] obtain post where
      p: "cs = take (nat (str_find cs sub)) cs @ sub @ post" and
      m: "\<forall>pre' post'. cs = pre' @ sub @ post' \<longrightarrow> nat (str_find cs sub) \<le> length pre'"
      by blast
    have n: "nat (str_find cs sub + 1) = Suc (nat (str_find cs sub))"
      using nn by simp
    have "c # cs = take (nat (str_find (c # cs) sub)) (c # cs) @ sub @ post"
      unfolding eq n using p by simp
    moreover have "nat (str_find (c # cs) sub) \<le> length pre'"
      if e: "c # cs = pre' @ sub @ post'" for pre' post'
    proof (cases pre')
      case Nil
      with e have "prefix sub (c # cs)" by (simp add: prefix_def)
      with False show ?thesis by simp
    next
      case (Cons a pre'')
      with e have "cs = pre'' @ sub @ post'" by simp
      with m have "nat (str_find cs sub) \<le> length pre''" by blast
      with Cons show ?thesis unfolding eq n by simp
    qed
    ultimately show ?thesis by blast
  qed
qed

lemma slice_to_minus_one: "slice_to s (- 1) = butlast s"
  by (cases s rule: rev_cases) (auto simp: slice_to_def)

section \<open>Claims about the header slicer\<close>

text \<open>
  C1. When the marker \<open><!DOCTYPE html\<close> occurs in the document, \<open>get_header\<close> returns
  the part of the document before the first occurrence of the marker: the document is the
  result, then the marker, then a rest, and no occurrence of the marker starts earlier.
  When the marker does not occur, the result is the document without its last character
  (the slice \<open>[:-1]\<close>), which for a non-empty document is not the whole document.
\<close>

theorem get_header_slices:
  "((\<exists>pre post. doc = pre @ doctype_marker @ post) \<longrightarrow>
      (\<exists>post. doc = get_header doc @ doctype_marker @ post) \<and>
      (\<forall>pre' post'. doc = pre' @ doctype_marker @ post' \<longrightarrow>
         length (get_header doc) \<le> length pre')) \<and>
   ((\<nexists>pre post. doc = pre @ doctype_marker @ post) \<longrightarrow>
      get_header doc = butlast doc \<and> (doc \<noteq> [] \<longrightarrow> get_header doc \<noteq> doc))"
proof (intro conjI impI)
  assume occ: "\<exists>pre post. doc = pre @ doctype_marker @ post"
  then have "str_find doc doctype_marker \<noteq> - 1"
    using str_find_absent [of doc doctype_marker] by blast
  then have nn: "0 \<le> str_find doc doctype_marker"
    using str_find_ge [of doc doctype_marker] by linarith
  then have h: "get_header doc = take (nat (str_find doc doctype_marker)) doc"
    by (simp add: get_header_def slice_to_def)
  from str_find_first [OF nn] obtain post where
    p: "doc = take (nat (str_find doc doctype_marker)) doc @ doctype_marker @ post" and
    m: "\<forall>pre' post'. doc = pre' @ doctype_marker @ post' \<longrightarrow>
          nat (str_find doc doctype_marker) \<le> length pre'"
    by blast
  from p show "\<exists>post. doc = get_header doc @ doctype_marker @ post"
    unfolding h by blast
  from m show "\<forall>pre' post'. doc = pre' @ doctype_marker @ post' \<longrightarrow>
      length (get_header doc) \<le> length pre'"
    unfolding h by (auto simp: min_def)
next
  assume "\<nexists>pre post. doc = pre @ doctype_marker @ post"
  then have "str_find doc doctype_marker = - 1"
    using str_find_absent [of doc doctype_marker] by blast
  then have b: "get_header doc = butlast doc"
    by (simp add: get_header_def slice_to_minus_one)
  then show "get_header doc = butlast doc" .
  show "get_header doc \<noteq> doc" if "doc \<noteq> []"
  proof
    assume "get_header doc = doc"
    with b have "length doc - 1 = length doc" by (metis length_butlast)
    moreover from that have "0 < length doc" by simp
    ultimately show False by linarith
  qed
qed

theorem get_header_slices_witness:
  "(\<exists>pre post. ''ab<!DOCTYPE html>cd'' = pre @ doctype_marker @ post) \<and>
   (\<exists>post. ''ab<!DOCTYPE html>cd'' = get_header ''ab<!DOCTYPE html>cd'' @ doctype_marker @ post) \<and>
   (\<nexists>pre post. ''abc'' = pre @ doctype_marker @ post) \<and>
   get_header ''abc'' = butlast ''abc''"
proof -
  have "''ab<!DOCTYPE html>cd'' = ''ab'' @ doctype_marker @ ''>cd''"
    by (simp add: doctype_marker_def)
  then have p: "\<exists>pre post. ''ab<!DOCTYPE html>cd'' = pre @ doctype_marker @ post"
    by blast
  have a: "\<nexists>pre post. ''abc'' = pre @ doctype_marker @ post"
    using str_find_absent [of "''abc''" doctype_marker] by (simp add: doctype_marker_def)
  from get_header_slices [of "''ab<!DOCTYPE html>cd''"] p
  have 1: "\<exists>post. ''ab<!DOCTYPE html>cd'' =
      get_header ''ab<!DOCTYPE html>cd'' @ doctype_marker @ post"
    by blast
  from get_header_slices [of "''abc''"] a
  have 2: "get_header ''abc'' = butlast ''abc''"
    by blast
  from p 1 a 2 show ?thesis by blast
qed

section \<open>Claims about the header search\<close>

lemma re_findall_no_exit: "re_findall p s \<noteq> Inl (SystemExit n)"
  by (simp add: re_findall_def split: option.splits)

text \<open>
  C5. A call of \<open>header_search\<close> with a pattern and a substring that are both non-empty
  ends the process with exit code 2, and so does a call in which both are empty. With
  exactly one of them non-empty the call goes on to \<open>re.findall\<close> and does not exit.
\<close>

theorem header_search_one_mode:
  "(pat \<noteq> [] \<and> sub \<noteq> [] \<longrightarrow>
      header_search doc sub pat = Inl (SystemExit 2)) \<and>
   (pat = [] \<and> sub = [] \<longrightarrow>
      header_search doc sub pat = Inl (SystemExit 2)) \<and>
   (pat = [] \<and> sub \<noteq> [] \<longrightarrow>
      header_search doc sub pat =
        re_findall (''.*'' @ sub @ ''.*'') (get_header doc) \<and>
      header_search doc sub pat \<noteq> Inl (SystemExit 2)) \<and>
   (pat \<noteq> [] \<and> sub = [] \<longrightarrow>
      header_search doc sub pat = re_findall pat (get_header doc) \<and>
      header_search doc sub pat \<noteq> Inl (SystemExit 2))"
  by (simp add: header_search_def Let_def re_findall_no_exit)

theorem header_search_one_mode_witness:
  "header_search ''Subject: hi'' ''Sub'' ''S.b'' = Inl (SystemExit 2) \<and>
   header_search ''Subject: hi'' [] [] = Inl (SystemExit 2) \<and>
   header_search ''Subject: hi'' ''Sub'' [] \<noteq> Inl (SystemExit 2) \<and>
   header_search ''Subject: hi'' [] ''S.b'' \<noteq> Inl (SystemExit 2)"
  using header_search_one_mode [of "''S.b''" "''Sub''" "''Subject: hi''"]
    header_search_one_mode [of "[]" "[]" "''Subject: hi''"]
    header_search_one_mode [of "[]" "''Sub''" "''Subject: hi''"]
    header_search_one_mode [of "''S.b''" "[]" "''Subject: hi''"]
  by blast

text \<open>Evaluating the matcher on a given pattern and text.\<close>

lemmas regex_eval =
  findall_def scan.simps rep.simps re_findall_def re_parse_def seq_of_def quantifier_def
  emit_def escape_def backslash_def newline_def is_word_def is_digit_def is_space_def
  digit_def word_def

lemma from_example:
  "re_findall ''.*From.*'' (''From: a@b.com'' @ [newline] @ ''To: c@d.com'') = Inr [''From: a@b.com'']"
  by (simp add: regex_eval)

lemma plus_example: "re_findall ''.*a+b.*'' ''a+b=c'' = Inr []"
  by (simp add: regex_eval)

text \<open>
  C4. In substring mode the pattern is \<open>.*\<close>, the substring as it is, \<open>.*\<close>, and
  it is applied by \<open>re.findall\<close> to the header region. With the substring \<open>From\<close> and
  the header region \<open>From: a@b.com\<close>, newline, \<open>To: c@d.com\<close> the result is the one
  line \<open>From: a@b.com\<close>. The substring is not escaped: \<open>a+b\<close> is read as a
  pattern and does not find the text \<open>a+b\<close>.
\<close>

theorem header_search_substring_mode:
  "(sub \<noteq> [] \<longrightarrow>
      header_search doc sub [] =
        re_findall (''.*'' @ sub @ ''.*'') (get_header doc)) \<and>
   (get_header doc = ''From: a@b.com'' @ [newline] @ ''To: c@d.com'' \<longrightarrow>
      header_search doc ''From'' [] = Inr [''From: a@b.com'']) \<and>
   (get_header doc = ''a+b=c'' \<longrightarrow> header_search doc ''a+b'' [] = Inr [])"
  using from_example plus_example by (simp add: header_search_def Let_def)

theorem header_search_substring_mode_witness:
  "''From'' \<noteq> [] \<and>
   get_header (''From: a@b.com'' @ [newline] @ ''To: c@d.com<!DOCTYPE html><p>hi</p>'') =
     ''From: a@b.com'' @ [newline] @ ''To: c@d.com'' \<and>
   header_search (''From: a@b.com'' @ [newline] @ ''To: c@d.com<!DOCTYPE html><p>hi</p>'')
     ''From'' [] = Inr [''From: a@b.com''] \<and>
   get_header ''a+b=c<!DOCTYPE html>'' = ''a+b=c'' \<and>
   header_search ''a+b=c<!DOCTYPE html>'' ''a+b'' [] = Inr []"
proof -
  have g1: "get_header (''From: a@b.com'' @ [newline] @ ''To: c@d.com<!DOCTYPE html><p>hi</p>'') =
      ''From: a@b.com'' @ [newline] @ ''To: c@d.com''"
    by (simp add: get_header_def doctype_marker_def slice_to_def newline_def Let_def)
  have g2: "get_header ''a+b=c<!DOCTYPE html>'' = ''a+b=c''"
    by (simp add: get_header_def doctype_marker_def slice_to_def Let_def)
  from g1 header_search_substring_mode
    [of "''From''" "''From: a@b.com'' @ [newline] @ ''To: c@d.com<!DOCTYPE html><p>hi</p>''"]
  have 1: "header_search (''From: a@b.com'' @ [newline] @ ''To: c@d.com<!DOCTYPE html><p>hi</p>'')
      ''From'' [] = Inr [''From: a@b.com'']"
    by blast
  from g2 header_search_substring_mode [of "''a+b''" "''a+b=c<!DOCTYPE html>''"]
  have 2: "header_search ''a+b=c<!DOCTYPE html>'' ''a+b'' [] = Inr []"
    by blast
  from g1 g2 1 2 show ?thesis by blast
qed

section \<open>Claims about the construction of \<open>DbConnection\<close>\<close>

lemma update_self_calls [simp]: "calls (update_self f w) = calls w"
  by (simp add: update_self_def)

lemma update_self_tables [simp]: "tables (update_self f w) = tables w"
  by (simp add: update_self_def)

lemma new_calls [simp]: "calls (DbConnection_new w) = calls w"
  by (simp add: DbConnection_new_def split: option.splits)

lemma new_tables [simp]: "tables (DbConnection_new w) = tables w"
  by (simp add: DbConnection_new_def split: option.splits)

text \<open>Evaluating the example worlds.\<close>

lemmas world_eval =
  example_world_def world_after_first_def world_with_domain_def conn1_def conn2_def
  DbConnection_call_def DbConnection_new_def DbConnection_init_def recreate_tables_def
  drop_and_create_def execute_def set_table_def update_self_def fresh_object_def
  is_connector_error_def first_object_def Let_def

lemma world_after_first_facts:
  "cls_instance world_after_first = Some first_object"
  "tables world_after_first conn1 ''ips'' = Some [''1.1.1.1'']"
  "tables world_after_first conn1 ''domains'' = Some []"
  "stdout world_after_first = []"
  "calls world_after_first =
     [Connect ''db1'' ''mail'' ''root'' ''pw1'' 3306,
      Execute conn1 (DropTable ''ips''), Execute conn1 (CreateTable ''ips''),
      Execute conn1 (DropTable ''domains''), Execute conn1 (CreateTable ''domains''),
      Execute conn1 (InsertValue ''ips'' ''1.1.1.1'')]"
  by (simp_all add: world_eval)

lemma world_with_domain_facts:
  "tables world_with_domain conn1 ''ips'' = Some [''1.1.1.1'']"
  "tables world_with_domain conn1 ''domains'' = Some [''a.com'']"
  "stdout world_with_domain = []"
  by (simp_all add: world_eval)

text \<open>
  C7. A construction with an empty password or an empty database name ends the process
  with exit code 2, and it makes no call to the connector before: the record of calls and
  the tables are as they were.
\<close>

theorem empty_credentials_exit_before_connect:
  "pw = [] \<or> dbn = [] \<Longrightarrow>
     snd (DbConnection_call w h p u pw dbn) = Inl (SystemExit 2) \<and>
     calls (fst (DbConnection_call w h p u pw dbn)) = calls w \<and>
     tables (fst (DbConnection_call w h p u pw dbn)) = tables w"
  by (auto simp: DbConnection_call_def DbConnection_init_def Let_def)

theorem empty_credentials_exit_before_connect_witness:
  "snd (DbConnection_call example_world ''db1'' 3306 ''root'' [] ''mail'') = Inl (SystemExit 2) \<and>
   calls (fst (DbConnection_call example_world ''db1'' 3306 ''root'' [] ''mail'')) = [] \<and>
   snd (DbConnection_call example_world ''db1'' 3306 ''root'' ''pw1'' []) = Inl (SystemExit 2) \<and>
   calls (fst (DbConnection_call example_world ''db1'' 3306 ''root'' ''pw1'' [])) = []"
proof -
  have c: "calls example_world = []" by (simp add: example_world_def)
  have "([]::string) = [] \<or> ''mail'' = []" by simp
  note a = empty_credentials_exit_before_connect [OF this, of example_world "''db1''" 3306 "''root''"]
  have "''pw1'' = [] \<or> ([]::string) = []" by simp
  note b = empty_credentials_exit_before_connect [OF this, of example_world "''db1''" 3306 "''root''"]
  from a b c show ?thesis by simp
qed

text \<open>
  C2. A second construction runs \<open>__init__\<close> again on the one object. After a first
  construction for the database \<open>mail\<close> on \<open>db1\<close> and one insertion, a construction
  with another configuration overwrites host, port, user, password and schema name of the
  object, opens a connection to the other database and drops and creates the two tables
  there; a construction with the first configuration again connects again and drops and
  creates the tables of the first database, which loses the row inserted.
\<close>

theorem second_construction_reinitialises:
  "cls_instance world_after_first = Some first_object \<and>
   tables world_after_first conn1 ''ips'' = Some [''1.1.1.1''] \<and>
   cls_instance (fst (DbConnection_call world_after_first ''db2'' 3307 ''admin'' ''pw2'' ''other'')) =
     Some \<lparr>host = Some ''db2'', port = Some 3307, user = Some ''admin'', password = Some ''pw2'',
           data_base = Some ''other'', conn = Some conn2\<rparr> \<and>
   calls (fst (DbConnection_call world_after_first ''db2'' 3307 ''admin'' ''pw2'' ''other'')) =
     calls world_after_first @
     [Connect ''db2'' ''other'' ''admin'' ''pw2'' 3307,
      Execute conn2 (DropTable ''ips''), Execute conn2 (CreateTable ''ips''),
      Execute conn2 (DropTable ''domains''), Execute conn2 (CreateTable ''domains'')] \<and>
   calls (fst (DbConnection_call world_after_first ''db1'' 3306 ''root'' ''pw1'' ''mail'')) =
     calls world_after_first @
     [Connect ''db1'' ''mail'' ''root'' ''pw1'' 3306,
      Execute conn1 (DropTable ''ips''), Execute conn1 (CreateTable ''ips''),
      Execute conn1 (DropTable ''domains''), Execute conn1 (CreateTable ''domains'')] \<and>
   tables (fst (DbConnection_call world_after_first ''db1'' 3306 ''root'' ''pw1'' ''mail''))
     conn1 ''ips'' = Some []"
  by (simp add: world_eval)

section \<open>Claims about the grouped query and the report\<close>

lemma set_uniq [simp]: "set (uniq xs) = set xs"
  by (induction xs rule: uniq.induct) auto

lemma distinct_uniq [simp]: "distinct (uniq xs)"
  by (induction xs rule: uniq.induct) auto

lemma set_query_grouped: "set (query_grouped vals) = (\<lambda>v. (v, count_list vals v)) ` set vals"
  by (simp add: query_grouped_def)

lemma distinct_query_grouped: "distinct (map fst (query_grouped vals))"
proof -
  have "inj_on (\<lambda>v. (v, count_list vals v)) (set (uniq vals))"
    by (rule inj_onI) simp
  then have "distinct (query_grouped vals)"
    by (simp add: query_grouped_def distinct_map)
  moreover have "inj_on fst (set (query_grouped vals))"
    by (rule inj_onI) (auto simp: set_query_grouped)
  ultimately show ?thesis
    by (simp add: distinct_map)
qed

lemma descending_query_grouped: "sorted_wrt (\<lambda>a b. snd b \<le> snd a) (query_grouped vals)"
proof -
  have "sorted (map snd (sort_key snd (rev (map (\<lambda>v. (v, count_list vals v)) (uniq vals)))))"
    by (rule sorted_sort_key)
  then have "sorted_wrt (\<lambda>a b. snd a \<le> snd b)
      (sort_key snd (rev (map (\<lambda>v. (v, count_list vals v)) (uniq vals))))"
    by (simp add: sorted_map)
  then show ?thesis
    by (simp add: query_grouped_def sorted_wrt_rev)
qed

lemma query_examples:
  "query_grouped [] = []"
  "query_grouped [''1.1.1.1''] = [(''1.1.1.1'', 1)]"
  "query_grouped [''a.com''] = [(''a.com'', 1)]"
  "query_grouped [''1.1.1.1'', ''1.1.1.1'', ''2.2.2.2''] = [(''1.1.1.1'', 2), (''2.2.2.2'', 1)]"
  by (simp_all add: query_grouped_def)

text \<open>
  C8. The grouped query returns one row for each distinct stored value, with the number
  of occurrences of the value, the rows in descending order of that number; it is what
  executing the \<open>SELECT\<close> statement returns. Over the values \<open>1.1.1.1\<close>, \<open>1.1.1.1\<close>,
  \<open>2.2.2.2\<close> it returns \<open>(1.1.1.1, 2)\<close> and then \<open>(2.2.2.2, 1)\<close>.
\<close>

theorem grouped_query_counts_descending:
  "distinct (map fst (query_grouped vals)) \<and>
   fst ` set (query_grouped vals) = set vals \<and>
   (\<forall>row \<in> set (query_grouped vals). snd row = count_list vals (fst row)) \<and>
   sorted_wrt (\<lambda>a b. snd b \<le> snd a) (query_grouped vals) \<and>
   (tables w c t = Some vals \<longrightarrow>
      snd (execute w c (SelectGrouped t)) = Inr (query_grouped vals)) \<and>
   query_grouped [''1.1.1.1'', ''1.1.1.1'', ''2.2.2.2''] = [(''1.1.1.1'', 2), (''2.2.2.2'', 1)]"
proof (intro conjI)
  show "distinct (map fst (query_grouped vals))" by (rule distinct_query_grouped)
  show "fst ` set (query_grouped vals) = set vals"
    by (force simp: set_query_grouped)
  show "\<forall>row \<in> set (query_grouped vals). snd row = count_list vals (fst row)"
    by (auto simp: set_query_grouped)
  show "sorted_wrt (\<lambda>a b. snd b \<le> snd a) (query_grouped vals)"
    by (rule descending_query_grouped)
  show "tables w c t = Some vals \<longrightarrow>
      snd (execute w c (SelectGrouped t)) = Inr (query_grouped vals)"
    by (simp add: execute_def Let_def)
  show "query_grouped [''1.1.1.1'', ''1.1.1.1'', ''2.2.2.2''] = [(''1.1.1.1'', 2), (''2.2.2.2'', 1)]"
    by (simp add: query_grouped_def)
qed

theorem grouped_query_counts_descending_witness:
  "tables (set_table conn1 ''ips'' (Some [''1.1.1.1'', ''1.1.1.1'', ''2.2.2.2'']) example_world)
     conn1 ''ips'' = Some [''1.1.1.1'', ''1.1.1.1'', ''2.2.2.2''] \<and>
   snd (execute (set_table conn1 ''ips'' (Some [''1.1.1.1'', ''1.1.1.1'', ''2.2.2.2'']) example_world)
     conn1 (SelectGrouped ''ips'')) = Inr [(''1.1.1.1'', 2), (''2.2.2.2'', 1)] \<and>
   count_list [''1.1.1.1'', ''1.1.1.1'', ''2.2.2.2''] ''1.1.1.1'' = 2 \<and>
   count_list [''1.1.1.1'', ''1.1.1.1'', ''2.2.2.2''] ''2.2.2.2'' = 1"
proof -
  have t: "tables (set_table conn1 ''ips'' (Some [''1.1.1.1'', ''1.1.1.1'', ''2.2.2.2'']) example_world)
     conn1 ''ips'' = Some [''1.1.1.1'', ''1.1.1.1'', ''2.2.2.2'']"
    by (simp add: set_table_def)
  from grouped_query_counts_descending
    [of "[''1.1.1.1'', ''1.1.1.1'', ''2.2.2.2'']"
        "set_table conn1 ''ips'' (Some [''1.1.1.1'', ''1.1.1.1'', ''2.2.2.2'']) example_world"
        conn1 "''ips''"] t
  show ?thesis by simp
qed

lemma execute_select:
  "tables w c t = Some rows \<Longrightarrow>
     execute w c (SelectGrouped t) = (w\<lparr>calls := calls w @ [Execute c (SelectGrouped t)]\<rparr>, Inr (query_grouped rows))"
  by (simp add: execute_def Let_def)

lemma report_unfold:
  assumes "conn db_conn = Some c" "tables w c ''ips'' = Some ips" "tables w c ''domains'' = Some doms"
  shows "snd (get_ips_and_domains w db_conn) = snd (domains_section (query_grouped doms))"
    and "stdout (fst (get_ips_and_domains w db_conn)) =
           stdout w @ [newline # ''IPs:''] @ ips_section (query_grouped ips) @
           [newline # ''Domains:''] @ fst (domains_section (query_grouped doms))"
  using assms
  by (simp_all add: get_ips_and_domains_def execute_select print_def print_all_def Let_def
        split: prod.splits)

text \<open>
  C9. When the grouped query over the table \<open>domains\<close> returns no row,
  \<open>get_ips_and_domains\<close> ends with an \<open>IndexError\<close> that nothing catches (exit status
  1): the last line printed is the label of the domains section, and no message about
  missing domains follows. The block of the IPs catches the \<open>IndexError\<close> of an empty
  result and prints \<open>No ips in database\<close>.
\<close>

theorem empty_domains_raise_IndexError:
  "conn db_conn = Some c \<Longrightarrow> tables w c ''ips'' = Some ips \<Longrightarrow>
   tables w c ''domains'' = Some doms \<Longrightarrow> query_grouped doms = [] \<Longrightarrow>
     snd (get_ips_and_domains w db_conn) = Inl IndexError \<and>
     exit_code (snd (get_ips_and_domains w db_conn)) = 1 \<and>
     stdout (fst (get_ips_and_domains w db_conn)) =
       stdout w @ [newline # ''IPs:''] @ ips_section (query_grouped ips) @ [newline # ''Domains:''] \<and>
     (query_grouped ips = [] \<longrightarrow> ips_section (query_grouped ips) = [''No ips in database''])"
  by (simp add: report_unfold domains_section_def ips_section_def exit_code_def)

theorem empty_domains_raise_IndexError_witness:
  "conn first_object = Some conn1 \<and>
   tables world_after_first conn1 ''ips'' = Some [''1.1.1.1''] \<and>
   tables world_after_first conn1 ''domains'' = Some [] \<and>
   query_grouped [] = ([] :: (string \<times> nat) list) \<and>
   snd (get_ips_and_domains world_after_first first_object) = Inl IndexError \<and>
   stdout (fst (get_ips_and_domains world_after_first first_object)) =
     [newline # ''IPs:'', ''1.1.1.1'', newline # ''Domains:'']"
proof -
  have c: "conn first_object = Some conn1" by (simp add: first_object_def)
  have q: "query_grouped [] = ([] :: (string \<times> nat) list)" by (simp add: query_grouped_def)
  note t = world_after_first_facts(2,3)
  from empty_domains_raise_IndexError [OF c t q] c t q world_after_first_facts(4) query_examples(2)
  show ?thesis by (simp add: ips_section_def)
qed

text \<open>
  C10. When the table \<open>domains\<close> is not empty and every domain in it occurs once,
  \<open>get_ips_and_domains\<close> returns normally and prints the label of the domains section
  and no domain after it. For the IPs the same situation prints each value on a line of
  its own.
\<close>

theorem single_count_domains_not_printed:
  "conn db_conn = Some c \<Longrightarrow> tables w c ''ips'' = Some ips \<Longrightarrow>
   tables w c ''domains'' = Some doms \<Longrightarrow> doms \<noteq> [] \<Longrightarrow>
   \<forall>row \<in> set (query_grouped doms). snd row = 1 \<Longrightarrow>
     snd (get_ips_and_domains w db_conn) = Inr () \<and>
     stdout (fst (get_ips_and_domains w db_conn)) =
       stdout w @ [newline # ''IPs:''] @ ips_section (query_grouped ips) @ [newline # ''Domains:''] \<and>
     (ips \<noteq> [] \<and> (\<forall>row \<in> set (query_grouped ips). snd row = 1) \<longrightarrow>
        ips_section (query_grouped ips) = map fst (query_grouped ips))"
proof -
  assume a: "conn db_conn = Some c" "tables w c ''ips'' = Some ips"
    "tables w c ''domains'' = Some doms"
    and ne: "doms \<noteq> []" and one: "\<forall>row \<in> set (query_grouped doms). snd row = 1"
  from ne have "set (query_grouped doms) \<noteq> {}" by (simp add: set_query_grouped)
  then obtain first rest where q: "query_grouped doms = first # rest"
    by (cases "query_grouped doms") auto
  with one have "snd first = 1" by simp
  with q have d: "domains_section (query_grouped doms) = ([], Inr ())"
    by (simp add: domains_section_def)
  have i: "ips_section (query_grouped ips) = map fst (query_grouped ips)"
    if "ips \<noteq> []" "\<forall>row \<in> set (query_grouped ips). snd row = 1"
  proof -
    from that(1) have "set (query_grouped ips) \<noteq> {}" by (simp add: set_query_grouped)
    then obtain f r where "query_grouped ips = f # r" by (cases "query_grouped ips") auto
    with that(2) show ?thesis by (simp add: ips_section_def)
  qed
  from a d i show ?thesis by (simp add: report_unfold)
qed

theorem single_count_domains_not_printed_witness:
  "conn first_object = Some conn1 \<and>
   tables world_with_domain conn1 ''ips'' = Some [''1.1.1.1''] \<and>
   tables world_with_domain conn1 ''domains'' = Some [''a.com''] \<and>
   [''a.com''] \<noteq> [] \<and>
   query_grouped [''a.com''] = [(''a.com'', 1)] \<and>
   snd (get_ips_and_domains world_with_domain first_object) = Inr () \<and>
   stdout (fst (get_ips_and_domains world_with_domain first_object)) =
     [newline # ''IPs:'', ''1.1.1.1'', newline # ''Domains:'']"
proof -
  have c: "conn first_object = Some conn1" by (simp add: first_object_def)
  have ne: "[''a.com''] \<noteq> []" by simp
  have one: "\<forall>row \<in> set (query_grouped [''a.com'']). snd row = 1"
    by (simp add: query_examples(3))
  note t = world_with_domain_facts(1,2)
  from single_count_domains_not_printed [OF c t ne one] c t world_with_domain_facts(3)
    query_examples(2,3)
  show ?thesis by (simp add: ips_section_def)
qed

section \<open>Claims about the exit status of a run\<close>

lemma exit_code_2 [simp]: "exit_code x = 2 \<longleftrightarrow> x = Inl (SystemExit 2)"
  by (auto simp: exit_code_def split: sum.splits exc.splits)


lemma execute_connector_error: "snd (execute w c s) = Inl e \<Longrightarrow> is_connector_error e"
  by (auto simp: execute_def Let_def fault_exc_def is_connector_error_def
      split: stmt.splits option.splits fault.splits)




lemma update_self_server [simp]: "server (update_self f w) = server w"
  by (simp add: update_self_def)

lemma update_self_files [simp]: "files (update_self f w) = files w"
  by (simp add: update_self_def)

lemma update_self_ddl_fault [simp]: "ddl_fault (update_self f w) = ddl_fault w"
  by (simp add: update_self_def)

lemma update_self_instance [simp]:
  "cls_instance (update_self f w) = map_option f (cls_instance w)"
  by (simp add: update_self_def)










lemma new_ddl_fault [simp]: "ddl_fault (DbConnection_new w) = ddl_fault w"
  by (simp add: DbConnection_new_def split: option.splits)






section \<open>Claims about the extraction of IPv4 addresses\<close>

subsection \<open>What the parts of the pattern match\<close>

lemma digit_is_word: "is_digit c \<Longrightarrow> is_word c"
  by (simp add: is_digit_def is_word_def Let_def)

lemma dot_not_word [simp]: "\<not> is_word CHR ''.''"
  by (simp add: is_word_def)

lemma dot_not_digit [simp]: "\<not> is_digit CHR ''.''"
  by (simp add: is_digit_def)

lemma run_digit:
  "run digit bf rs = (case rs of [] \<Rightarrow> [] | c # cs \<Rightarrow> if is_digit c then [1] else [])"
  by (simp add: digit_def split: list.splits)

lemma run_word:
  "run word bf rs = (case rs of [] \<Rightarrow> [] | c # cs \<Rightarrow> if is_word c then [1] else [])"
  by (simp add: word_def split: list.splits)

lemma width_word [simp]: "width word = Some 1"
  by (simp add: word_def)

lemma run_not_after_word_or_dot:
  "run not_after_word_or_dot bf rs = (if boundary_before bf then [0] else [])"
  by (cases bf) (auto simp: not_after_word_or_dot_def boundary_before_def run_word)

lemma rep_zero_times: "rep m 0 (Some 0) bf rs = [0]"
  by (simp add: rep.simps)

lemma rep_0_Suc:
  "rep m 0 (Some (Suc h)) bf rs =
     concat (map (\<lambda>k.
       if 0 < k \<and> k \<le> length rs
       then map ((+) k) (rep m 0 (Some h) (rev (take k rs) @ bf) (drop k rs))
       else if k = 0 then [0] else []) (m bf rs)) @ [0]"
  by (subst rep.simps) (simp cong: if_cong)

lemma rep_Suc_Suc:
  "rep m (Suc l) (Some (Suc h)) bf rs =
     concat (map (\<lambda>k.
       if 0 < k \<and> k \<le> length rs
       then map ((+) k) (rep m l (Some h) (rev (take k rs) @ bf) (drop k rs))
       else if k = 0 then rep m l (Some h) bf rs else []) (m bf rs))"
  by (subst rep.simps) (simp cong: if_cong)

lemma rep_optional_dot:
  "rep (run (Lit CHR ''.'')) 0 (Some (Suc 0)) bf rs =
     (case rs of [] \<Rightarrow> [0] | c # cs \<Rightarrow> if c = CHR ''.'' then [1, 0] else [0])"
  by (simp add: rep_0_Suc rep_zero_times split: list.splits)

lemma run_not_before_word:
  "run not_before_word bf rs = (if boundary_after rs then [0] else [])"
  by (auto simp: not_before_word_def boundary_after_def run_word
      rep_optional_dot split: list.splits)

lemma set_run_Seq:
  "set (run (Seq a b) bf rs) =
     (\<Union>k \<in> set (run a bf rs). (+) k ` set (run b (rev (take k rs) @ bf) (drop k rs)))"
  by auto

lemma rep_digit_upto:
  "set (rep (run digit) 0 (Some h) bf rs) =
     {k. k \<le> h \<and> k \<le> length rs \<and> list_all is_digit (take k rs)}"
proof (induction h arbitrary: bf rs)
  case 0
  then show ?case by (auto simp: rep_zero_times)
next
  case (Suc h)
  show ?case
  proof (cases rs)
    case Nil
    then show ?thesis by (auto simp: rep_0_Suc run_digit)
  next
    case (Cons c cs)
    show ?thesis
    proof (cases "is_digit c")
      case False
      with Cons show ?thesis
        by (auto simp: rep_0_Suc run_digit take_Cons'
            split: if_splits)
    next
      case True
      have "set (rep (run digit) 0 (Some (Suc h)) bf rs) =
          insert 0 ((+) 1 ` set (rep (run digit) 0 (Some h) (c # bf) cs))"
        using Cons True by (simp add: rep_0_Suc run_digit)
      also have "\<dots> = {k. k \<le> Suc h \<and> k \<le> length rs \<and> list_all is_digit (take k rs)}"
      proof (rule set_eqI)
        fix k
        show "k \<in> insert 0 ((+) 1 ` set (rep (run digit) 0 (Some h) (c # bf) cs)) \<longleftrightarrow>
            k \<in> {k. k \<le> Suc h \<and> k \<le> length rs \<and> list_all is_digit (take k rs)}"
          unfolding Suc.IH using Cons True by (cases k) (auto simp: image_iff)
      qed
      finally show ?thesis .
    qed
  qed
qed

lemma digit_group_no_dot: "digit_group g \<Longrightarrow> CHR ''.'' \<notin> set g"
  by (auto simp: digit_group_def list_all_iff)

lemma run_digits_iff:
  "n \<in> set (run (Rep 1 (Some 3) digit) bf rs) \<longleftrightarrow> n \<le> length rs \<and> digit_group (take n rs)"
proof -
  have "run (Rep 1 (Some 3) digit) bf rs = rep (run digit) (Suc 0) (Some (Suc 2)) bf rs"
    by (simp add: eval_nat_numeral)
  also have "set \<dots> =
      (case rs of [] \<Rightarrow> {} | c # cs \<Rightarrow>
         if is_digit c then (+) 1 ` {k. k \<le> 2 \<and> k \<le> length cs \<and> list_all is_digit (take k cs)}
         else {})"
    by (subst rep_Suc_Suc) (simp add: run_digit rep_digit_upto split: list.splits)
  finally have s: "set (run (Rep 1 (Some 3) digit) bf rs) =
      (case rs of [] \<Rightarrow> {} | c # cs \<Rightarrow>
         if is_digit c then (+) 1 ` {k. k \<le> 2 \<and> k \<le> length cs \<and> list_all is_digit (take k cs)}
         else {})" .
  show ?thesis
  proof (cases rs)
    case Nil
    then show ?thesis unfolding s by (simp add: digit_group_def)
  next
    case (Cons c cs)
    then show ?thesis unfolding s
      by (cases n) (auto simp: digit_group_def image_iff)
  qed
qed

lemma join_dots_simps [simp]:
  "join_dots [] = []" "join_dots (g # gs) = CHR ''.'' # g @ join_dots gs"
  by (simp_all add: join_dots_def)

lemma run_dot_group_iff:
  "n \<in> set (run (Seq (Lit CHR ''.'') (Rep 1 (Some 3) digit)) bf rs) \<longleftrightarrow>
     (\<exists>g r. rs = CHR ''.'' # g @ r \<and> n = Suc (length g) \<and> digit_group g)"
proof (cases rs)
  case Nil
  then show ?thesis by simp
next
  case (Cons c cs)
  show ?thesis
  proof (cases "c = CHR ''.''")
    case False
    with Cons show ?thesis by simp
  next
    case True
    have "n \<in> set (run (Seq (Lit CHR ''.'') (Rep 1 (Some 3) digit)) bf rs) \<longleftrightarrow>
        (\<exists>k. n = Suc k \<and> k \<le> length cs \<and> digit_group (take k cs))"
      using Cons True run_digits_iff [of _ "[CHR ''.''] @ bf" cs]
      by (auto simp del: run.simps(7) simp add: image_iff)
    also have "\<dots> \<longleftrightarrow> (\<exists>g r. rs = CHR ''.'' # g @ r \<and> n = Suc (length g) \<and> digit_group g)"
    proof
      assume "\<exists>k. n = Suc k \<and> k \<le> length cs \<and> digit_group (take k cs)"
      then obtain k where k: "n = Suc k" "k \<le> length cs" "digit_group (take k cs)" by blast
      then have "rs = CHR ''.'' # take k cs @ drop k cs \<and> n = Suc (length (take k cs)) \<and>
          digit_group (take k cs)"
        using Cons True by simp
      then show "\<exists>g r. rs = CHR ''.'' # g @ r \<and> n = Suc (length g) \<and> digit_group g" by blast
    next
      assume "\<exists>g r. rs = CHR ''.'' # g @ r \<and> n = Suc (length g) \<and> digit_group g"
      then obtain g r where "rs = CHR ''.'' # g @ r" "n = Suc (length g)" "digit_group g"
        by blast
      with Cons have "n = Suc (length g) \<and> length g \<le> length cs \<and> digit_group (take (length g) cs)"
        by auto
      then show "\<exists>k. n = Suc k \<and> k \<le> length cs \<and> digit_group (take k cs)" by blast
    qed
    finally show ?thesis .
  qed
qed

lemma rep_dot_groups_iff:
  "n \<in> set (rep (run (Seq (Lit CHR ''.'') (Rep 1 (Some 3) digit))) l (Some l) bf rs) \<longleftrightarrow>
     (\<exists>gs r. length gs = l \<and> rs = join_dots gs @ r \<and> n = length (join_dots gs) \<and>
        list_all digit_group gs)"
  (is "n \<in> set (rep ?m l (Some l) bf rs) \<longleftrightarrow> ?R l n rs")
proof (induction l arbitrary: n bf rs)
  case 0
  then show ?case by (auto simp: rep_zero_times)
next
  case (Suc l)
  have pos: "0 < k \<and> k \<le> length rs" if "k \<in> set (?m bf rs)" for k
    using that run_dot_group_iff [of k bf rs] by auto
  have U: "set (rep ?m (Suc l) (Some (Suc l)) bf rs) =
      (\<Union>k \<in> set (?m bf rs). (+) k ` set (rep ?m l (Some l) (rev (take k rs) @ bf) (drop k rs)))"
    unfolding rep_Suc_Suc using pos by (auto simp del: run.simps)
  have "n \<in> set (rep ?m (Suc l) (Some (Suc l)) bf rs) \<longleftrightarrow>
      (\<exists>k j. k \<in> set (?m bf rs) \<and>
         j \<in> set (rep ?m l (Some l) (rev (take k rs) @ bf) (drop k rs)) \<and> n = k + j)"
    unfolding U UN_iff image_iff Bex_def by blast
  also have "\<dots> \<longleftrightarrow> (\<exists>k j. k \<in> set (?m bf rs) \<and> ?R l j (drop k rs) \<and> n = k + j)"
    unfolding Suc.IH by blast
  also have "\<dots> \<longleftrightarrow> ?R (Suc l) n rs"
  proof
    assume "\<exists>k j. k \<in> set (?m bf rs) \<and> ?R l j (drop k rs) \<and> n = k + j"
    then obtain k j g r gs r' where
      g: "rs = CHR ''.'' # g @ r" "k = Suc (length g)" "digit_group g" and
      gs: "length gs = l" "drop k rs = join_dots gs @ r'" "j = length (join_dots gs)"
        "list_all digit_group gs" and n: "n = k + j"
      unfolding run_dot_group_iff by blast
    from g gs have "r = join_dots gs @ r'" by simp
    with g gs n have "length (g # gs) = Suc l \<and> rs = join_dots (g # gs) @ r' \<and>
        n = length (join_dots (g # gs)) \<and> list_all digit_group (g # gs)"
      by simp
    then show "?R (Suc l) n rs" by blast
  next
    assume "?R (Suc l) n rs"
    then obtain gs r where gs: "length gs = Suc l" "rs = join_dots gs @ r"
      "n = length (join_dots gs)" "list_all digit_group gs" by blast
    then obtain g gs' where c: "gs = g # gs'" by (cases gs) auto
    with gs have 1: "Suc (length g) \<in> set (?m bf rs)"
      unfolding run_dot_group_iff by auto
    from c gs have 2: "?R l (length (join_dots gs')) (drop (Suc (length g)) rs)"
      by auto
    from c gs have "n = Suc (length g) + length (join_dots gs')" by simp
    with 1 2 show "\<exists>k j. k \<in> set (?m bf rs) \<and> ?R l j (drop k rs) \<and> n = k + j" by blast
  qed
  finally show ?case .
qed

subsection \<open>Dotted quads\<close>

lemma split_dots_not_Nil [simp]: "split_dots s \<noteq> []"
  by (induction s) (auto split: list.splits)

lemma split_dots_append_dot:
  "CHR ''.'' \<notin> set a \<Longrightarrow> split_dots (a @ CHR ''.'' # s) = a # split_dots s"
  by (induction a) (auto split: list.splits)

lemma split_dots_no_dot: "CHR ''.'' \<notin> set a \<Longrightarrow> split_dots a = [a]"
  by (induction a) (auto split: list.splits)

lemma split_dots_join:
  "CHR ''.'' \<notin> set a \<Longrightarrow> \<forall>g \<in> set gs. CHR ''.'' \<notin> set g \<Longrightarrow>
     split_dots (a @ join_dots gs) = a # gs"
proof (induction gs arbitrary: a)
  case Nil
  then show ?case by (simp add: split_dots_no_dot)
next
  case (Cons g gs)
  then have "split_dots (g @ join_dots gs) = g # gs" by simp
  with Cons.prems show ?case by (simp add: split_dots_append_dot)
qed

lemma join_split_dots: "split_dots s = a # gs \<Longrightarrow> s = a @ join_dots gs"
proof (induction s arbitrary: a gs)
  case Nil
  then show ?case by simp
next
  case (Cons c s)
  show ?case
  proof (cases "c = CHR ''.''")
    case True
    obtain b hs where b: "split_dots s = b # hs"
      by (cases "split_dots s") simp_all
    with Cons.prems True have "a = []" "gs = b # hs" by simp_all
    with Cons.IH [OF b] True show ?thesis by simp
  next
    case False
    obtain b hs where b: "split_dots s = b # hs"
      by (cases "split_dots s") simp_all
    with Cons.prems False have "a = c # b" "gs = hs" by simp_all
    with Cons.IH [OF b] show ?thesis by simp
  qed
qed

lemma length_split_dots: "length (split_dots s) = Suc (count_list s CHR ''.'')"
  by (induction s) (auto split: list.splits)

lemma is_quad_iff:
  "is_quad tok \<longleftrightarrow>
     (\<exists>a gs. tok = a @ join_dots gs \<and> length gs = 3 \<and> digit_group a \<and> list_all digit_group gs)"
proof
  assume q: "is_quad tok"
  obtain a gs where s: "split_dots tok = a # gs"
    by (cases "split_dots tok") simp_all
  with q join_split_dots [OF s] have "tok = a @ join_dots gs \<and> length gs = 3 \<and> digit_group a \<and>
      list_all digit_group gs"
    by (simp add: is_quad_def)
  then show "\<exists>a gs. tok = a @ join_dots gs \<and> length gs = 3 \<and> digit_group a \<and>
      list_all digit_group gs" by blast
next
  assume "\<exists>a gs. tok = a @ join_dots gs \<and> length gs = 3 \<and> digit_group a \<and>
      list_all digit_group gs"
  then obtain a gs where t: "tok = a @ join_dots gs" "length gs = 3" "digit_group a"
    "list_all digit_group gs" by blast
  then have "split_dots tok = a # gs"
    using split_dots_join [of a gs] by (auto simp: digit_group_no_dot list_all_iff)
  with t show "is_quad tok" by (simp add: is_quad_def)
qed

lemma run_quad_body_iff:
  "n \<in> set (run quad_body bf rs) \<longleftrightarrow> n \<le> length rs \<and> is_quad (take n rs)"
proof -
  let ?g = "Seq (Lit CHR ''.'') (Rep 1 (Some 3) digit)"
  have "n \<in> set (run quad_body bf rs) \<longleftrightarrow>
      (\<exists>k j. k \<in> set (run (Rep 1 (Some 3) digit) bf rs) \<and>
         j \<in> set (rep (run ?g) 3 (Some 3) (rev (take k rs) @ bf) (drop k rs)) \<and> n = k + j)"
    unfolding quad_body_def set_run_Seq UN_iff image_iff Bex_def run.simps(7) [of 3 "Some 3"]
    by blast
  also have "\<dots> \<longleftrightarrow>
      (\<exists>k j. k \<le> length rs \<and> digit_group (take k rs) \<and>
         (\<exists>gs r. length gs = 3 \<and> drop k rs = join_dots gs @ r \<and> j = length (join_dots gs) \<and>
            list_all digit_group gs) \<and> n = k + j)"
    unfolding run_digits_iff rep_dot_groups_iff by blast
  also have "\<dots> \<longleftrightarrow> n \<le> length rs \<and> is_quad (take n rs)"
  proof
    assume "\<exists>k j. k \<le> length rs \<and> digit_group (take k rs) \<and>
         (\<exists>gs r. length gs = 3 \<and> drop k rs = join_dots gs @ r \<and> j = length (join_dots gs) \<and>
            list_all digit_group gs) \<and> n = k + j"
    then obtain k j gs r where k: "k \<le> length rs" "digit_group (take k rs)" and
      gs: "length gs = 3" "drop k rs = join_dots gs @ r" "j = length (join_dots gs)"
        "list_all digit_group gs" and n: "n = k + j" by blast
    have "rs = take k rs @ join_dots gs @ r"
      using gs(2) append_take_drop_id [of k rs] by simp
    then have "take n rs = take k rs @ join_dots gs" "n \<le> length rs"
      using k(1) gs(3) n
      by (metis append.assoc append_eq_conv_conj length_append length_take min.absorb2,
          metis append.assoc le_add1 length_append length_take min.absorb2)
    with k gs show "n \<le> length rs \<and> is_quad (take n rs)"
      unfolding is_quad_iff by blast
  next
    assume a: "n \<le> length rs \<and> is_quad (take n rs)"
    then obtain a gs where t: "take n rs = a @ join_dots gs" "length gs = 3" "digit_group a"
      "list_all digit_group gs" unfolding is_quad_iff by blast
    have rs: "rs = a @ join_dots gs @ drop n rs"
      using t(1) append_take_drop_id [of n rs] by simp
    then have "take (length a) rs = a" "drop (length a) rs = join_dots gs @ drop n rs"
      by (metis append_eq_conv_conj)+
    moreover have "length a \<le> length rs" using rs by (metis le_add1 length_append)
    moreover have "n = length a + length (join_dots gs)"
      using t(1) a by (metis length_append length_take min.absorb2)
    ultimately show "\<exists>k j. k \<le> length rs \<and> digit_group (take k rs) \<and>
         (\<exists>gs r. length gs = 3 \<and> drop k rs = join_dots gs @ r \<and> j = length (join_dots gs) \<and>
            list_all digit_group gs) \<and> n = k + j"
      using t by metis
  qed
  finally show ?thesis .
qed

lemma run_ip_v4_iff: "n \<in> set (run ip_v4_re bf rs) \<longleftrightarrow> quad_here bf rs n"
proof -
  have "set (run ip_v4_re bf rs) =
      (if boundary_before bf
       then {k \<in> set (run quad_body bf rs). boundary_after (drop k rs)}
       else {})"
    unfolding ip_v4_re_def
    by (auto simp add: run_not_after_word_or_dot run_not_before_word simp del: run.simps(9,10))
  then show ?thesis
    using run_quad_body_iff [of n bf rs] by (auto simp: quad_here_def)
qed

lemma join_dots_chars:
  "list_all digit_group gs \<Longrightarrow> c \<in> set (join_dots gs) \<Longrightarrow> is_digit c \<or> c = CHR ''.''"
  by (induction gs) (auto simp: digit_group_def list_all_iff)

lemma quad_chars:
  assumes "is_quad tok" and c: "c \<in> set tok"
  shows "is_digit c \<or> c = CHR ''.''"
proof -
  from assms(1) obtain a gs where t: "tok = a @ join_dots gs" "digit_group a"
    "list_all digit_group gs" unfolding is_quad_iff by blast
  from c t(1) have "c \<in> set a \<or> c \<in> set (join_dots gs)" by simp
  then show ?thesis
  proof
    assume "c \<in> set a"
    with t(2) show ?thesis by (simp add: digit_group_def list_all_iff)
  next
    assume "c \<in> set (join_dots gs)"
    with t(3) show ?thesis by (rule join_dots_chars)
  qed
qed

lemma quad_dots: "is_quad tok \<Longrightarrow> count_list tok CHR ''.'' = 3"
  using length_split_dots [of tok] by (simp add: is_quad_def)

lemma quad_not_Nil: "is_quad tok \<Longrightarrow> tok \<noteq> []"
  by (auto simp: is_quad_def)

lemma quad_here_less:
  assumes n: "quad_here bf rs n" and m: "quad_here bf rs m" and l: "n < m"
  shows False
proof -
  from m l have len: "n < length rs" by (simp add: quad_here_def)
  then obtain c rest where d: "drop n rs = c # rest"
    by (cases "drop n rs") auto
  have t: "take m rs = take n rs @ c # take (m - Suc n) rest"
  proof -
    have "take m rs = take (n + (m - n)) rs" using l by simp
    also have "\<dots> = take n rs @ take (m - n) (drop n rs)" by (rule take_add)
    also have "take (m - n) (drop n rs) = c # take (m - Suc n) rest"
    proof -
      have "m - n = Suc (m - Suc n)" using l by arith
      then show ?thesis by (simp add: d)
    qed
    finally show ?thesis .
  qed
  from m have qm: "is_quad (take m rs)" by (simp add: quad_here_def)
  from t have "c \<in> set (take m rs)" by simp
  with qm have "is_digit c \<or> c = CHR ''.''" by (rule quad_chars)
  moreover from n d have "\<not> is_word c" by (simp add: quad_here_def boundary_after_def)
  ultimately have c: "c = CHR ''.''" using digit_is_word by blast
  from n have "count_list (take n rs) CHR ''.'' = 3" by (simp add: quad_here_def quad_dots)
  with t c have "3 < count_list (take m rs) CHR ''.''" by simp
  with quad_dots [OF qm] show False by simp
qed

lemma quad_here_unique: "quad_here bf rs n \<Longrightarrow> quad_here bf rs m \<Longrightarrow> n = m"
  using quad_here_less [of bf rs n m] quad_here_less [of bf rs m n]
  by (cases n m rule: linorder_cases) auto

lemma quad_here_pos: "quad_here bf rs n \<Longrightarrow> 0 < n \<and> rs \<noteq> []"
  using quad_not_Nil [of "take n rs"] by (auto simp: quad_here_def)

lemma filter_unique:
  assumes d: "distinct xs" and n: "n \<in> set xs" and p: "P n"
    and u: "\<forall>m \<in> set xs. P m \<longrightarrow> m = n"
  shows "filter P xs = [n]"
proof -
  from n obtain ys zs where xs: "xs = ys @ n # zs" by (meson split_list)
  from d have nys: "n \<notin> set ys" and nzs: "n \<notin> set zs" unfolding xs by simp_all
  have "\<forall>m \<in> set ys. \<not> P m"
  proof
    fix m assume m: "m \<in> set ys"
    then have "m \<in> set xs" unfolding xs by simp
    with u have "P m \<longrightarrow> m = n" by blast
    with m nys show "\<not> P m" by blast
  qed
  then have fy: "filter P ys = []" by (simp only: filter_empty_conv)
  have "\<forall>m \<in> set zs. \<not> P m"
  proof
    fix m assume m: "m \<in> set zs"
    then have "m \<in> set xs" unfolding xs by simp
    with u have "P m \<longrightarrow> m = n" by blast
    with m nzs show "\<not> P m" by blast
  qed
  then have fz: "filter P zs = []" by (simp only: filter_empty_conv)
  show ?thesis unfolding xs filter_append filter.simps fy fz using p by simp
qed

subsection \<open>The scan\<close>

lemma tokens_skip:
  "\<not> boundary_before bf \<Longrightarrow> \<forall>c \<in> set xs. is_word c \<or> c = CHR ''.'' \<Longrightarrow>
     tokens_from bf (xs @ ys) = tokens_from (rev xs @ bf) ys"
proof (induction xs arbitrary: bf)
  case Nil
  then show ?case by simp
next
  case (Cons x xs)
  from Cons.prems(1) have "filter (quad_here bf (x # xs @ ys)) [0..<Suc (length (x # xs @ ys))] = []"
    unfolding filter_empty_conv by (simp add: quad_here_def)
  moreover from Cons.prems(2) have "\<not> boundary_before (x # bf)"
    by (auto simp: boundary_before_def)
  ultimately show ?case
    using Cons.IH [of "x # bf"] Cons.prems(2) by simp
qed

lemma tokens_from_match:
  assumes q: "quad_here bf rs n"
  shows "tokens_from bf rs = take n rs # tokens_from (rev (take n rs) @ bf) (drop n rs)"
proof -
  from quad_here_pos [OF q] obtain c cs where rs: "rs = c # cs" and pos: "0 < n"
    by (cases rs) auto
  from q have le: "n \<le> length rs" and qd: "is_quad (take n rs)" by (simp_all add: quad_here_def)
  have "filter (quad_here bf rs) [0..<Suc (length rs)] = [n]"
  proof (rule filter_unique)
    show "distinct [0..<Suc (length rs)]" by simp
    show "n \<in> set [0..<Suc (length rs)]" using le by auto
    show "quad_here bf rs n" by (rule q)
    show "\<forall>m \<in> set [0..<Suc (length rs)]. quad_here bf rs m \<longrightarrow> m = n"
      using quad_here_unique [OF _ q] by blast
  qed
  then have 1: "tokens_from bf rs = take n rs # tokens_from (c # bf) cs"
    unfolding rs by simp
  obtain k where k: "n = Suc k" using pos by (cases n) auto
  have tk: "take n rs = c # take k cs" "drop n rs = drop k cs" by (simp_all add: rs k)
  have w: "\<forall>x \<in> set (take n rs). is_word x \<or> x = CHR ''.''"
    using quad_chars [OF qd] digit_is_word by blast
  then have "\<not> boundary_before (c # bf)" "\<forall>x \<in> set (take k cs). is_word x \<or> x = CHR ''.''"
    by (auto simp: tk boundary_before_def)
  then have "tokens_from (c # bf) (take k cs @ drop k cs) =
      tokens_from (rev (take k cs) @ c # bf) (drop k cs)"
    by (rule tokens_skip)
  with 1 show ?thesis by (simp add: tk)
qed

lemma tokens_from_no_match:
  "\<forall>n. \<not> quad_here bf (c # cs) n \<Longrightarrow> tokens_from bf (c # cs) = tokens_from (c # bf) cs"
  by (simp add: filter_empty_conv)

lemma find_all_equal:
  "xs \<noteq> [] \<Longrightarrow> \<forall>x \<in> set xs. x = n \<Longrightarrow> P n \<Longrightarrow> find P xs = Some n"
  by (cases xs) auto

lemma scan_ip_v4: "scan ip_v4_re False bf rs = tokens_from bf rs"
proof (induction rs arbitrary: bf rule: length_induct)
  case (1 rs)
  show ?case
  proof (cases "\<exists>n. quad_here bf rs n")
    case True
    then obtain n where q: "quad_here bf rs n" by blast
    then have "n \<in> set (run ip_v4_re bf rs)" by (simp add: run_ip_v4_iff)
    then have ne: "run ip_v4_re bf rs \<noteq> []" by auto
    have all: "\<forall>x \<in> set (run ip_v4_re bf rs). x = n"
      using quad_here_unique [OF _ q] by (simp add: run_ip_v4_iff)
    from q have le: "n \<le> length rs" by (simp add: quad_here_def)
    from quad_here_pos [OF q] have pos: "0 < n" "rs \<noteq> []" by simp_all
    have f: "find (\<lambda>k. k \<le> length rs) (run ip_v4_re bf rs) = Some n"
      using ne all le by (intro find_all_equal) simp_all
    have "length (drop n rs) < length rs" using pos by (cases rs) auto
    with 1 have ih: "scan ip_v4_re False (rev (take n rs) @ bf) (drop n rs) =
        tokens_from (rev (take n rs) @ bf) (drop n rs)" by blast
    have "scan ip_v4_re False bf rs =
        take n rs # scan ip_v4_re False (rev (take n rs) @ bf) (drop n rs)"
      using pos by (subst scan.simps) (simp add: f)
    with ih tokens_from_match [OF q] show ?thesis by simp
  next
    case False
    then have "set (run ip_v4_re bf rs) = {}"
      unfolding set_eq_iff run_ip_v4_iff by simp
    then have "run ip_v4_re bf rs = []" by simp
    then have s: "scan ip_v4_re False bf rs =
        (case rs of [] \<Rightarrow> [] | c # cs \<Rightarrow> scan ip_v4_re False (c # bf) cs)"
      by (subst scan.simps) simp
    show ?thesis
    proof (cases rs)
      case Nil
      with s show ?thesis by simp
    next
      case (Cons c cs)
      with 1 have "scan ip_v4_re False (c # bf) cs = tokens_from (c # bf) cs" by simp
      with s Cons False tokens_from_no_match [of bf c cs] show ?thesis by simp
    qed
  qed
qed

text \<open>
  C6. The IPv4 extraction returns the occurrences of free-standing dotted quads of the
  document: every position from left to right, and at each position the token that
  starts there, so each occurrence once, in the order of the document, with repeated
  values kept. At one position at most one length makes a free-standing dotted quad.
\<close>

theorem ip_v4_findall_occurrences:
  "findall ip_v4_re doc = occurrences doc \<and>
   (quad_here bf rs n \<and> quad_here bf rs m \<longrightarrow> n = m)"
proof (intro conjI impI)
  show "findall ip_v4_re doc = occurrences doc"
    by (simp only: findall_def occurrences_def scan_ip_v4)
  show "n = m" if "quad_here bf rs n \<and> quad_here bf rs m"
    using that quad_here_unique [of bf rs n m] by blast
qed

theorem ip_v4_findall_occurrences_witness:
  "findall ip_v4_re ''a 1.2.3.4 b 1.2.3.4'' = [''1.2.3.4'', ''1.2.3.4''] \<and>
   occurrences ''a 1.2.3.4 b 1.2.3.4'' = [''1.2.3.4'', ''1.2.3.4''] \<and>
   quad_here '' a'' ''1.2.3.4 b 1.2.3.4'' 7 \<and>
   findall ip_v4_re (CHR 0xE9 # ''1.2.3.4 2.3.4.5'') = [''2.3.4.5''] \<and>
   occurrences (CHR 0xE9 # ''1.2.3.4 2.3.4.5'') = [''2.3.4.5''] \<and>
   findall ip_v4_re (''1.2.3.4'' @ CHR 0xB2 # '' 2.3.4.5'' @ [CHR 0xA0]) = [''2.3.4.5''] \<and>
   occurrences (''1.2.3.4'' @ CHR 0xB2 # '' 2.3.4.5'' @ [CHR 0xA0]) = [''2.3.4.5'']"
proof -
  have o: "occurrences ''a 1.2.3.4 b 1.2.3.4'' = [''1.2.3.4'', ''1.2.3.4'']"
    by code_simp
  have q: "quad_here '' a'' ''1.2.3.4 b 1.2.3.4'' 7"
    by code_simp
  have o1: "occurrences (CHR 0xE9 # ''1.2.3.4 2.3.4.5'') = [''2.3.4.5'']"
    by code_simp
  have o2: "occurrences (''1.2.3.4'' @ CHR 0xB2 # '' 2.3.4.5'' @ [CHR 0xA0]) = [''2.3.4.5'']"
    by code_simp
  from ip_v4_findall_occurrences [of "''a 1.2.3.4 b 1.2.3.4''" "'' a''" "''1.2.3.4 b 1.2.3.4''" 7 7]
    ip_v4_findall_occurrences [of "CHR 0xE9 # ''1.2.3.4 2.3.4.5''" "'' a''" "''1.2.3.4 b 1.2.3.4''" 7 7]
    ip_v4_findall_occurrences
      [of "''1.2.3.4'' @ CHR 0xB2 # '' 2.3.4.5'' @ [CHR 0xA0]" "'' a''" "''1.2.3.4 b 1.2.3.4''" 7 7]
    o q o1 o2
  show ?thesis by simp
qed
end
